theory Spec2Isabelle
  imports Main "HOL-Library.Word"
begin

unbundle bit_operations_syntax

section \<open>Bytes and Python's integer conversions\<close>

type_synonym byte = "8 word"
type_synonym bytes = "byte list"
type_synonym u64 = "64 word"

text \<open>
  The exceptions the script can raise: \<open>open(..., 'xb')\<close> on an existing path
  (\<open>FileExistsError\<close>), \<open>os.getrandom\<close> and \<open>fp.write\<close> (both \<open>OSError\<close>, kept apart
  by the call that raised), and \<open>int.to_bytes\<close> (\<open>OverflowError\<close>).
\<close>

datatype error = FileExistsError | OSError_getrandom | OSError_write | OverflowError

text \<open>\<open>int.from_bytes(bs, 'little')\<close> for an unsigned value.\<close>

primrec from_bytes_little :: "bytes \<Rightarrow> nat" where
  "from_bytes_little [] = 0"
| "from_bytes_little (b # bs) = unat b + 256 * from_bytes_little bs"

text \<open>The \<open>k\<close> low-order base-256 digits of \<open>n\<close>, least significant first.\<close>

primrec little_digits :: "nat \<Rightarrow> nat \<Rightarrow> bytes" where
  "little_digits 0 n = []"
| "little_digits (Suc k) n = of_nat (n mod 256) # little_digits k (n div 256)"

text \<open>
  \<open>n.to_bytes(k, 'little')\<close> for \<open>n \<ge> 0\<close>: Python raises \<open>OverflowError\<close>
  (``int too big to convert'') when \<open>n\<close> does not fit into \<open>k\<close> bytes.
\<close>

definition to_bytes :: "nat \<Rightarrow> nat \<Rightarrow> error + bytes" where
  "to_bytes n k = (if n < 256 ^ k then Inr (little_digits k n) else Inl OverflowError)"

section \<open>BLAKE2b, as \<open>hashlib.blake2b\<close> computes it (RFC 7693, unkeyed, sequential)\<close>

definition blake2b_IV :: "u64 list" where
  "blake2b_IV =
     [0x6a09e667f3bcc908, 0xbb67ae8584caa73b, 0x3c6ef372fe94f82b, 0xa54ff53a5f1d36f1,
      0x510e527fade682d1, 0x9b05688c2b3e6c1f, 0x1f83d9abfb41bd6b, 0x5be0cd19137e2179]"

definition blake2b_SIGMA :: "nat list list" where
  "blake2b_SIGMA =
     [[0, 1, 2, 3, 4, 5, 6, 7, 8, 9, 10, 11, 12, 13, 14, 15],
      [14, 10, 4, 8, 9, 15, 13, 6, 1, 12, 0, 2, 11, 7, 5, 3],
      [11, 8, 12, 0, 5, 2, 15, 13, 10, 14, 3, 6, 7, 1, 9, 4],
      [7, 9, 3, 1, 13, 12, 11, 14, 2, 6, 5, 10, 4, 0, 15, 8],
      [9, 0, 5, 7, 2, 4, 10, 15, 14, 1, 11, 12, 6, 8, 3, 13],
      [2, 12, 6, 10, 0, 11, 8, 3, 4, 13, 7, 5, 15, 14, 1, 9],
      [12, 5, 1, 15, 14, 13, 4, 10, 0, 7, 6, 3, 9, 2, 8, 11],
      [13, 11, 7, 14, 12, 1, 3, 9, 5, 0, 15, 4, 8, 6, 2, 10],
      [6, 15, 14, 9, 11, 3, 0, 8, 12, 2, 13, 7, 1, 4, 10, 5],
      [10, 2, 8, 4, 7, 6, 1, 5, 15, 11, 9, 14, 3, 12, 13, 0]]"

text \<open>
  The mixing function \<open>G\<close> on the 16-word work vector \<open>v\<close>, as its eight assignments:
  \<^verbatim>\<open>
    v[a] := v[a] + v[b] + x;   v[d] := (v[d] ^ v[a]) >>> 32;
    v[c] := v[c] + v[d];       v[b] := (v[b] ^ v[c]) >>> 24;
    v[a] := v[a] + v[b] + y;   v[d] := (v[d] ^ v[a]) >>> 16;
    v[c] := v[c] + v[d];       v[b] := (v[b] ^ v[c]) >>> 63;
  \<close>
\<close>

definition add_in :: "nat \<Rightarrow> nat \<Rightarrow> u64 \<Rightarrow> u64 list \<Rightarrow> u64 list" where
  "add_in a b x v = v[a := v ! a + v ! b + x]"

definition xor_rotr :: "nat \<Rightarrow> nat \<Rightarrow> nat \<Rightarrow> u64 list \<Rightarrow> u64 list" where
  "xor_rotr d a r v = v[d := word_rotr r (v ! d XOR v ! a)]"

definition blake2b_G :: "nat \<Rightarrow> nat \<Rightarrow> nat \<Rightarrow> nat \<Rightarrow> u64 \<Rightarrow> u64 \<Rightarrow> u64 list \<Rightarrow> u64 list" where
  "blake2b_G a b c d x y v =
     xor_rotr b c 63 (add_in c d 0
    (xor_rotr d a 16 (add_in a b y
    (xor_rotr b c 24 (add_in c d 0
    (xor_rotr d a 32 (add_in a b x v)))))))"

text \<open>One round: four column steps, then four diagonal steps, with the message
  words permuted by the schedule \<open>s\<close>.\<close>

definition blake2b_round :: "u64 list \<Rightarrow> nat list \<Rightarrow> u64 list \<Rightarrow> u64 list" where
  "blake2b_round m s v =
     blake2b_G 3 4 9 14 (m ! (s ! 14)) (m ! (s ! 15))
    (blake2b_G 2 7 8 13 (m ! (s ! 12)) (m ! (s ! 13))
    (blake2b_G 1 6 11 12 (m ! (s ! 10)) (m ! (s ! 11))
    (blake2b_G 0 5 10 15 (m ! (s ! 8)) (m ! (s ! 9))
    (blake2b_G 3 7 11 15 (m ! (s ! 6)) (m ! (s ! 7))
    (blake2b_G 2 6 10 14 (m ! (s ! 4)) (m ! (s ! 5))
    (blake2b_G 1 5 9 13 (m ! (s ! 2)) (m ! (s ! 3))
    (blake2b_G 0 4 8 12 (m ! (s ! 0)) (m ! (s ! 1)) v)))))))"

text \<open>
  The compression function \<open>F\<close>: \<open>h\<close> is the 8-word chaining value, \<open>m\<close> the 16 message
  words of the block, \<open>t\<close> the number of input bytes consumed so far (a 128-bit counter)
  and \<open>final\<close> the last-block flag. The work vector starts as \<open>h\<close> followed by the
  initialisation vector, with the counter's low 64 bits mixed into word 12, its next 64
  bits into word 13, and word 14 inverted for the last block. Twelve rounds follow, round
  \<open>r\<close> using schedule \<open>r mod 10\<close>; the new chaining value folds the two halves of the
  work vector into \<open>h\<close>.
\<close>

definition blake2b_init :: "u64 list \<Rightarrow> nat \<Rightarrow> bool \<Rightarrow> u64 list" where
  "blake2b_init h t final =
     h @ take 4 blake2b_IV
       @ [blake2b_IV ! 4 XOR of_nat t,
          blake2b_IV ! 5 XOR of_nat (drop_bit 64 t),
          (if final then NOT (blake2b_IV ! 6) else blake2b_IV ! 6),
          blake2b_IV ! 7]"

definition blake2b_rounds :: "u64 list \<Rightarrow> u64 list \<Rightarrow> u64 list" where
  "blake2b_rounds m v = fold (\<lambda>r. blake2b_round m (blake2b_SIGMA ! (r mod 10))) [0..<12] v"

definition blake2b_finish :: "u64 list \<Rightarrow> u64 list \<Rightarrow> u64 list" where
  "blake2b_finish h v = map (\<lambda>i. h ! i XOR v ! i XOR v ! (i + 8)) [0..<8]"

definition blake2b_compress :: "u64 list \<Rightarrow> u64 list \<Rightarrow> nat \<Rightarrow> bool \<Rightarrow> u64 list" where
  "blake2b_compress h m t final = blake2b_finish h (blake2b_rounds m (blake2b_init h t final))"

text \<open>The sixteen little-endian 64-bit words of a 128-byte block.\<close>

definition block_words :: "bytes \<Rightarrow> u64 list" where
  "block_words blk = map (\<lambda>i. of_nat (from_bytes_little (take 8 (drop (8 * i) blk)))) [0..<16]"

text \<open>
  Absorbing the input: every block but the last is compressed with the flag off; the
  last block (the whole input when it has at most 128 bytes, the empty input included)
  is padded with zero bytes and compressed with the flag on.
\<close>

fun blake2b_update :: "u64 list \<Rightarrow> nat \<Rightarrow> bytes \<Rightarrow> u64 list" where
  "blake2b_update h t d =
     (if length d \<le> 128
      then blake2b_compress h (block_words (d @ replicate (128 - length d) 0)) (t + length d) True
      else blake2b_update (blake2b_compress h (block_words (take 128 d)) (t + 128) False)
             (t + 128) (drop 128 d))"

declare blake2b_update.simps [simp del]

text \<open>
  \<open>blake2b(data, digest_size=nn).digest()\<close> with every other parameter at its default
  (no key, no salt, no personalisation, fanout 1, depth 1): the parameter block's first
  word is \<open>0x01010000 XOR nn\<close>, the rest is zero, and the digest is the first \<open>nn\<close>
  bytes of the final chaining value written little-endian.
\<close>

definition blake2b_h0 :: "nat \<Rightarrow> u64 list" where
  "blake2b_h0 digest_size =
     (hd blake2b_IV XOR 0x01010000 XOR of_nat digest_size) # tl blake2b_IV"

definition blake2b :: "bytes \<Rightarrow> nat \<Rightarrow> bytes" where
  "blake2b data digest_size =
     take digest_size
       (concat (map (\<lambda>w. little_digits 8 (unat w)) (blake2b_update (blake2b_h0 digest_size) 0 data)))"

section \<open>The script\<close>

text \<open>\<open>def hash_data(data): return blake2b(data, digest_size=30).digest()\<close>\<close>

definition hash_data :: "bytes \<Rightarrow> bytes" where
  "hash_data data = blake2b data 30"

subsection \<open>What \<open>print\<close> writes\<close>

text \<open>\<open>bytes.hex()\<close>: two lower-case hexadecimal digits per byte.\<close>

definition hex_digit :: "nat \<Rightarrow> char" where
  "hex_digit n = ''0123456789abcdef'' ! n"

definition hex :: "bytes \<Rightarrow> string" where
  "hex bs = concat (map (\<lambda>b. [hex_digit (unat b div 16), hex_digit (unat b mod 16)]) bs)"

text \<open>\<open>str(n)\<close> for \<open>n \<ge> 0\<close>: the decimal digits, most significant first.\<close>

fun str_nat :: "nat \<Rightarrow> string" where
  "str_nat n =
     (if n < 10 then [char_of (48 + n)] else str_nat (n div 10) @ [char_of (48 + n mod 10)])"

declare str_nat.simps [simp del]

subsection \<open>The environment and the script's globals\<close>

text \<open>
  The script talks to three things outside itself: the kernel's entropy source
  (\<open>os.getrandom\<close>), the file system (\<open>open\<close>, \<open>fp.write\<close>) and the console
  (\<open>print\<close>). The entropy source and the disk are scripted: the state holds what the next
  calls will be answered. \<open>os.getrandom(n)\<close> returns \<^emph>\<open>up to\<close> \<open>n\<close> bytes, so an
  answer \<open>Supplies bs\<close> delivers \<open>take n bs\<close>; \<open>Unavailable\<close> is the call failing.
  A write either takes the whole buffer or fails after \<open>k\<close> of its bytes reached the file.
\<close>

datatype rand_reply = Supplies bytes | Unavailable

datatype write_reply = Accepts | Fails nat

datatype event =
    Opened string
  | Open_failed string
  | Getrandom nat bytes
  | Getrandom_failed nat
  | Printed string
  | Written bytes
  | Write_failed bytes nat

text \<open>
  \<open>entropy\<close> and \<open>disk\<close> are the scripted answers still to come (an exhausted entropy
  script is a source that fails, an exhausted disk script a disk that accepts), \<open>files\<close>
  the content of each existing path, \<open>handles\<close> the paths with an open file object,
  \<open>trace\<close> every interaction so far, oldest first, and \<open>total\<close> the script's global
  counter of that name. \<open>fp.write\<close> is modelled at the level of the file object: the bytes
  it accepts are the file's content (the buffering between the object and the disk is
  not modelled).
\<close>

record state =
  entropy :: "rand_reply list"
  disk :: "write_reply list"
  files :: "string \<rightharpoonup> bytes"
  handles :: "string set"
  trace :: "event list"
  total :: nat

definition log :: "event \<Rightarrow> state \<Rightarrow> state" where
  "log ev w = w\<lparr>trace := trace w @ [ev]\<rparr>"

text \<open>The lines on the console are the \<open>Printed\<close> events of the trace.\<close>

fun console :: "event list \<Rightarrow> string list" where
  "console [] = []"
| "console (Printed s # evs) = s # console evs"
| "console (_ # evs) = console evs"

text \<open>\<open>os.getrandom(n)\<close>\<close>

definition getrandom :: "nat \<Rightarrow> state \<Rightarrow> (error + bytes) \<times> state" where
  "getrandom n w =
     (case entropy w of
        [] \<Rightarrow> (Inl OSError_getrandom, log (Getrandom_failed n) w)
      | Unavailable # rest \<Rightarrow>
          (Inl OSError_getrandom, log (Getrandom_failed n) (w\<lparr>entropy := rest\<rparr>))
      | Supplies bs # rest \<Rightarrow>
          (Inr (take n bs), log (Getrandom n (take n bs)) (w\<lparr>entropy := rest\<rparr>)))"

text \<open>\<open>print(...)\<close> of one line.\<close>

definition print :: "string \<Rightarrow> state \<Rightarrow> state" where
  "print line w = log (Printed line) w"

text \<open>
  \<open>open(path, 'xb')\<close>: exclusive creation. It raises \<open>FileExistsError\<close> when the path
  exists and otherwise creates an empty file and returns the file object, here the path
  it stands for.
\<close>

definition open_xb :: "string \<Rightarrow> state \<Rightarrow> (error + string) \<times> state" where
  "open_xb path w =
     (case files w path of
        Some old \<Rightarrow> (Inl FileExistsError, log (Open_failed path) w)
      | None \<Rightarrow>
          (Inr path,
           log (Opened path) (w\<lparr>files := (files w)(path \<mapsto> []), handles := insert path (handles w)\<rparr>)))"

text \<open>\<open>fp.write(buf)\<close>: appends to the file and returns the number of bytes written.\<close>

definition append_file :: "string \<Rightarrow> bytes \<Rightarrow> (string \<rightharpoonup> bytes) \<Rightarrow> (string \<rightharpoonup> bytes)" where
  "append_file path buf fs = fs(path \<mapsto> (case fs path of None \<Rightarrow> [] | Some old \<Rightarrow> old) @ buf)"

definition fp_write :: "string \<Rightarrow> bytes \<Rightarrow> state \<Rightarrow> (error + nat) \<times> state" where
  "fp_write fp buf w =
     (case disk w of
        [] \<Rightarrow> (Inr (length buf), log (Written buf) (w\<lparr>files := append_file fp buf (files w)\<rparr>))
      | Accepts # rest \<Rightarrow>
          (Inr (length buf),
           log (Written buf) (w\<lparr>disk := rest, files := append_file fp buf (files w)\<rparr>))
      | Fails k # rest \<Rightarrow>
          (Inl OSError_write,
           log (Write_failed buf k)
             (w\<lparr>disk := rest, files := append_file fp (take k buf) (files w)\<rparr>)))"

subsection \<open>The functions of the script\<close>

text \<open>\<open>def random_size(): return int.from_bytes(getrandom(2), 'little')\<close>\<close>

definition random_size :: "state \<Rightarrow> (error + nat) \<times> state" where
  "random_size w =
     (case getrandom 2 w of
        (Inl e, w1) \<Rightarrow> (Inl e, w1)
      | (Inr bs, w1) \<Rightarrow> (Inr (from_bytes_little bs), w1))"

text \<open>\<open>def random_data(): return getrandom(random_size())\<close>\<close>

definition random_data :: "state \<Rightarrow> (error + bytes) \<times> state" where
  "random_data w =
     (case random_size w of
        (Inl e, w1) \<Rightarrow> (Inl e, w1)
      | (Inr n, w1) \<Rightarrow> getrandom n w1)"

text \<open>
  The body of \<open>random_entry\<close> once \<open>d\<close> is drawn:
  \<^verbatim>\<open>
    h = hash_data(d)
    s = len(d).to_bytes(8, 'little')
    print(h.hex(), len(d))
    return b''.join([h, s, d])
  \<close>
\<close>

definition encode_entry :: "bytes \<Rightarrow> state \<Rightarrow> (error + bytes) \<times> state" where
  "encode_entry d w =
     (let h = hash_data d
      in case to_bytes (length d) 8 of
           Inl e \<Rightarrow> (Inl e, w)
         | Inr s \<Rightarrow> (Inr (h @ s @ d), print (hex h @ '' '' @ str_nat (length d)) w))"

text \<open>\<open>def random_entry(): d = random_data(); ...\<close>\<close>

definition random_entry :: "state \<Rightarrow> (error + bytes) \<times> state" where
  "random_entry w =
     (case random_data w of
        (Inl e, w1) \<Rightarrow> (Inl e, w1)
      | (Inr d, w1) \<Rightarrow> encode_entry d w1)"

text \<open>
  The loop \<open>for i in range(n): buf = random_entry(); total += fp.write(buf)\<close>, with
  \<open>n\<close> the iterations still to run.
\<close>

primrec loop :: "string \<Rightarrow> nat \<Rightarrow> state \<Rightarrow> (error + unit) \<times> state" where
  "loop fp 0 w = (Inr (), w)"
| "loop fp (Suc n) w =
     (case random_entry w of
        (Inl e, w1) \<Rightarrow> (Inl e, w1)
      | (Inr buf, w1) \<Rightarrow>
          (case fp_write fp buf w1 of
             (Inl e, w2) \<Rightarrow> (Inl e, w2)
           | (Inr k, w2) \<Rightarrow> loop fp n (w2\<lparr>total := total w2 + k\<rparr>)))"

text \<open>
  The module's top level:
  \<^verbatim>\<open>
    fp = open('test.btdb', 'xb')
    total = 0
    for i in range(100_000): ...
    print(total)
  \<close>
\<close>

definition main :: "state \<Rightarrow> (error + unit) \<times> state" where
  "main w =
     (case open_xb ''test.btdb'' w of
        (Inl e, w1) \<Rightarrow> (Inl e, w1)
      | (Inr fp, w1) \<Rightarrow>
          (case loop fp 100000 (w1\<lparr>total := 0\<rparr>) of
             (Inl e, w2) \<Rightarrow> (Inl e, w2)
           | (Inr u, w2) \<Rightarrow> (Inr (), print (str_nat (total w2)) w2)))"

subsection \<open>Vocabulary for stating what a run leaves behind\<close>

text \<open>
  The record built from a payload \<open>d\<close> (what \<open>random_entry\<close> returns), its console line
  (what it prints), and the four interactions of one completed iteration of the loop:
  the size read delivering \<open>a\<close>, the content read delivering \<open>d\<close>, the console line and
  the write.
\<close>

definition record_bytes :: "bytes \<Rightarrow> bytes" where
  "record_bytes d = hash_data d @ little_digits 8 (length d) @ d"

definition console_line :: "bytes \<Rightarrow> string" where
  "console_line d = hex (hash_data d) @ '' '' @ str_nat (length d)"

definition iteration_events :: "bytes \<times> bytes \<Rightarrow> event list" where
  "iteration_events ad =
     [Getrandom 2 (fst ad), Getrandom (from_bytes_little (fst ad)) (snd ad),
      Printed (console_line (snd ad)), Written (record_bytes (snd ad))]"

subsection \<open>A reader for the file format\<close>

text \<open>
  Modelled from the spec: the repository has no reader, and the spec gives the layout a
  reader follows (``read 30 bytes digest, read 8 bytes length, read \<open>length\<close> bytes
  payload, repeat''). \<open>parse_record\<close> reads one record off the front of a buffer and
  returns the triple with the bytes left over, or \<open>None\<close> when the buffer is too short;
  \<open>serialize_record\<close> writes a triple back in the order \<open>digest || length || payload\<close>.
\<close>

definition parse_record :: "bytes \<Rightarrow> ((bytes \<times> nat \<times> bytes) \<times> bytes) option" where
  "parse_record buf =
     (if length buf < 38 then None
      else let n = from_bytes_little (take 8 (drop 30 buf))
           in if length buf < 38 + n then None
              else Some ((take 30 buf, n, take n (drop 38 buf)), drop (38 + n) buf))"

definition serialize_record :: "bytes \<times> nat \<times> bytes \<Rightarrow> error + bytes" where
  "serialize_record r =
     (case r of (digest, n, payload) \<Rightarrow>
        (case to_bytes n 8 of Inl e \<Rightarrow> Inl e | Inr s \<Rightarrow> Inr (digest @ s @ payload)))"

section \<open>Integer conversions\<close>

lemma length_little_digits [simp]: "length (little_digits k n) = k"
  by (induction k arbitrary: n) simp_all

lemma little_digits_numeral:
  "little_digits (numeral k) n = of_nat (n mod 256) # little_digits (pred_numeral k) (n div 256)"
proof -
  have "little_digits (Suc (pred_numeral k)) n =
        of_nat (n mod 256) # little_digits (pred_numeral k) (n div 256)"
    by (rule little_digits.simps)
  then show ?thesis
    by (simp only: numeral_eq_Suc [of k, symmetric])
qed

lemma from_bytes_little_digits: "from_bytes_little (little_digits k n) = n mod 256 ^ k"
proof (induction k arbitrary: n)
  case 0
  show ?case by simp
next
  case (Suc k)
  have "unat (of_nat (n mod 256) :: byte) = n mod 256"
    by (simp add: unat_of_nat)
  then have "from_bytes_little (little_digits (Suc k) n) = n mod 256 + 256 * (n div 256 mod 256 ^ k)"
    by (simp add: Suc.IH)
  also have "\<dots> = n mod 256 ^ Suc k"
    by (simp add: mod_mult2_eq)
  finally show ?case .
qed

lemma from_bytes_little_bound: "from_bytes_little bs < 256 ^ length bs"
proof (induction bs)
  case Nil
  show ?case by simp
next
  case (Cons b bs)
  have "unat b < 256"
    using unsigned_less [of b, where ?'a = nat] by simp
  moreover have "Suc (from_bytes_little bs) \<le> 256 ^ length bs"
    using Cons.IH by simp
  then have "256 * Suc (from_bytes_little bs) \<le> 256 * 256 ^ length bs"
    by (rule mult_le_mono2)
  ultimately show ?case by simp
qed

lemma from_bytes_little_16_bit:
  assumes "length a \<le> 2"
  shows "from_bytes_little a \<le> 65535"
proof -
  have "(256::nat) ^ length a \<le> 256 ^ 2"
    using assms by (intro power_increasing) simp_all
  with from_bytes_little_bound [of a] show ?thesis by simp
qed

lemma to_bytes_Inr: "n < 256 ^ k \<Longrightarrow> to_bytes n k = Inr (little_digits k n)"
  by (simp add: to_bytes_def)

section \<open>The digest has 30 bytes\<close>

lemma length_blake2b_compress [simp]: "length (blake2b_compress h m t final) = 8"
  by (simp add: blake2b_compress_def blake2b_finish_def)

lemma length_blake2b_update [simp]: "length (blake2b_update h t d) = 8"
proof (induction h t d rule: blake2b_update.induct)
  case (1 h t d)
  show ?case
  proof (cases "length d \<le> 128")
    case True
    then show ?thesis by (subst blake2b_update.simps) simp
  next
    case False
    then show ?thesis using 1 by (subst blake2b_update.simps) simp
  qed
qed

lemma length_concat_fixed:
  "(\<And>x. length (f x) = k) \<Longrightarrow> length (concat (map f xs)) = k * length xs"
  by (induction xs) simp_all

lemma length_blake2b: "n \<le> 64 \<Longrightarrow> length (blake2b data n) = n"
proof -
  have "length (concat (map (\<lambda>w. little_digits 8 (unat w)) (blake2b_update h t data))) = 64" for h t
    by (simp add: length_concat_fixed [where k = 8])
  then show "n \<le> 64 \<Longrightarrow> length (blake2b data n) = n"
    by (simp add: blake2b_def)
qed

lemma length_hash_data [simp]: "length (hash_data d) = 30"
  by (simp add: hash_data_def length_blake2b)

lemma length_record_bytes [simp]: "length (record_bytes d) = 38 + length d"
  by (simp add: record_bytes_def)

section \<open>The record encoder\<close>

lemma encode_entry_Inr:
  assumes "length d < 2 ^ 64"
  shows "encode_entry d w = (Inr (record_bytes d), print (console_line d) w)"
  using assms
  by (simp add: encode_entry_def to_bytes_def record_bytes_def console_line_def Let_def)

lemma encode_entry_Inr_D:
  assumes "fst (encode_entry d w) = Inr buf"
  shows "length d < 2 ^ 64 \<and> buf = record_bytes d"
  using assms
  by (auto simp add: encode_entry_def to_bytes_def record_bytes_def Let_def split: if_splits)

text \<open>
  C1. For every payload \<open>p\<close> (a Python \<open>bytes\<close> object, so shorter than \<open>2 ^ 64\<close> bytes),
  the encoder returns exactly \<open>digest || length_bytes || payload\<close>: the digest is the
  30-byte \<open>hash_data p\<close>, the length field is what \<open>to_bytes\<close> gives for \<open>len(p)\<close> on 8
  bytes, little-endian, and it decodes to \<open>len(p)\<close>; the buffer has \<open>38 + len(p)\<close> bytes;
  and the buffer is the same in whatever state the encoder runs: it depends on \<open>p\<close> alone.
\<close>

theorem encode_entry_layout:
  assumes "length p < 2 ^ 64"
  shows "fst (encode_entry p w) = Inr (hash_data p @ little_digits 8 (length p) @ p)
       \<and> length (hash_data p) = 30
       \<and> to_bytes (length p) 8 = Inr (little_digits 8 (length p))
       \<and> length (little_digits 8 (length p)) = 8
       \<and> from_bytes_little (little_digits 8 (length p)) = length p
       \<and> length (hash_data p @ little_digits 8 (length p) @ p) = 38 + length p
       \<and> fst (encode_entry p w') = fst (encode_entry p w)"
proof -
  have "fst (encode_entry p v) = Inr (hash_data p @ little_digits 8 (length p) @ p)" for v
    using assms by (simp add: encode_entry_Inr record_bytes_def)
  moreover have "to_bytes (length p) 8 = Inr (little_digits 8 (length p))"
    using assms by (simp add: to_bytes_def)
  moreover have "from_bytes_little (little_digits 8 (length p)) = length p"
    using assms by (simp add: from_bytes_little_digits)
  ultimately show ?thesis by simp
qed

theorem encode_entry_layout_witness:
  "length [1, 2, 3 :: byte] < 2 ^ 64
   \<and> fst (encode_entry [1, 2, 3]
        \<lparr>entropy = [], disk = [], files = Map.empty, handles = {}, trace = [], total = 0\<rparr>)
     = Inr (hash_data [1, 2, 3] @ [3, 0, 0, 0, 0, 0, 0, 0] @ [1, 2, 3])
   \<and> from_bytes_little [3, 0, 0, 0, 0, 0, 0, 0] = 3"
  using encode_entry_layout [of "[1, 2, 3]"
      "\<lparr>entropy = [], disk = [], files = Map.empty, handles = {}, trace = [], total = 0\<rparr>"]
  by (simp add: little_digits_numeral)

text \<open>
  C2. For every payload, the first 30 bytes of its encoded record are the BLAKE2b hash of
  the payload at digest size 30, which is what \<open>hash_data\<close> computes; the digest field
  has 30 bytes whatever the payload's size.
\<close>

theorem digest_is_blake2b_30:
  assumes "fst (encode_entry p w) = Inr buf"
  shows "take 30 buf = blake2b p 30 \<and> length (blake2b p 30) = 30 \<and> hash_data p = blake2b p 30"
proof -
  have "buf = hash_data p @ little_digits 8 (length p) @ p"
    using encode_entry_Inr_D [OF assms] by (simp add: record_bytes_def)
  then have "take 30 buf = hash_data p"
    by simp
  moreover have "length (blake2b p 30) = 30"
    by (simp add: length_blake2b)
  ultimately show ?thesis
    by (simp add: hash_data_def)
qed

theorem digest_is_blake2b_30_witness:
  "fst (encode_entry (replicate 200 7)
        \<lparr>entropy = [], disk = [], files = Map.empty, handles = {}, trace = [], total = 0\<rparr>)
     = Inr (hash_data (replicate 200 7) @ [200, 0, 0, 0, 0, 0, 0, 0] @ replicate 200 7)
   \<and> take 30 (hash_data (replicate 200 7) @ [200, 0, 0, 0, 0, 0, 0, 0] @ replicate 200 7)
     = blake2b (replicate 200 7) 30"
proof -
  have run: "fst (encode_entry (replicate 200 7)
        \<lparr>entropy = [], disk = [], files = Map.empty, handles = {}, trace = [], total = 0\<rparr>)
     = Inr (hash_data (replicate 200 7) @ [200, 0, 0, 0, 0, 0, 0, 0] @ replicate 200 7)"
    by (simp add: encode_entry_Inr record_bytes_def little_digits_numeral)
  from digest_is_blake2b_30 [OF run] run show ?thesis
    by simp
qed

text \<open>
  C3. Reading an encoded record back as 30 bytes of digest, 8 bytes of little-endian
  length and that many bytes of payload recovers the digest, the payload's length and the
  payload (and leaves what followed the record in the file untouched); writing the triple
  out again gives the identical buffer; the length field decodes to \<open>len(payload)\<close>.
\<close>

theorem record_round_trip:
  assumes "fst (encode_entry p w) = Inr buf"
  shows "parse_record (buf @ rest) = Some ((hash_data p, length p, p), rest)
       \<and> serialize_record (hash_data p, length p, p) = Inr buf
       \<and> from_bytes_little (take 8 (drop 30 buf)) = length p"
proof -
  from encode_entry_Inr_D [OF assms]
  have len: "length p < 2 ^ 64" and buf: "buf = hash_data p @ little_digits 8 (length p) @ p"
    by (simp_all add: record_bytes_def)
  have field: "from_bytes_little (little_digits 8 (length p)) = length p"
    using len by (simp add: from_bytes_little_digits)
  have "parse_record (buf @ rest) = Some ((hash_data p, length p, p), rest)"
    by (simp add: parse_record_def buf field)
  moreover have "serialize_record (hash_data p, length p, p) = Inr buf"
    using len by (simp add: serialize_record_def to_bytes_def buf)
  moreover have "from_bytes_little (take 8 (drop 30 buf)) = length p"
    by (simp add: buf field)
  ultimately show ?thesis by simp
qed

theorem record_round_trip_witness:
  "fst (encode_entry [0xde, 0xad]
        \<lparr>entropy = [], disk = [], files = Map.empty, handles = {}, trace = [], total = 0\<rparr>)
     = Inr (hash_data [0xde, 0xad] @ [2, 0, 0, 0, 0, 0, 0, 0, 0xde, 0xad])
   \<and> parse_record (hash_data [0xde, 0xad] @ [2, 0, 0, 0, 0, 0, 0, 0, 0xde, 0xad])
     = Some ((hash_data [0xde, 0xad], 2, [0xde, 0xad]), [])
   \<and> serialize_record (hash_data [0xde, 0xad], 2, [0xde, 0xad])
     = Inr (hash_data [0xde, 0xad] @ [2, 0, 0, 0, 0, 0, 0, 0, 0xde, 0xad])"
proof -
  have run: "fst (encode_entry [0xde, 0xad]
        \<lparr>entropy = [], disk = [], files = Map.empty, handles = {}, trace = [], total = 0\<rparr>)
     = Inr (hash_data [0xde, 0xad] @ [2, 0, 0, 0, 0, 0, 0, 0, 0xde, 0xad])"
    by (simp add: encode_entry_Inr record_bytes_def little_digits_numeral)
  from record_round_trip [OF run, of "[]"] run show ?thesis
    by (simp add: numeral_2_eq_2)
qed

section \<open>What each call does to the state\<close>

lemma getrandom_Inr:
  assumes "getrandom n w = (Inr bs, w')"
  shows "length bs \<le> n \<and> trace w' = trace w @ [Getrandom n bs] \<and> files w' = files w
       \<and> total w' = total w \<and> handles w' = handles w \<and> disk w' = disk w
       \<and> (\<exists>s. entropy w = Supplies s # entropy w' \<and> bs = take n s)"
  using assms
  by (auto simp add: getrandom_def log_def split: list.splits rand_reply.splits)

lemma getrandom_Inl:
  assumes "getrandom n w = (Inl e, w')"
  shows "e = OSError_getrandom \<and> trace w' = trace w @ [Getrandom_failed n] \<and> files w' = files w
       \<and> total w' = total w \<and> handles w' = handles w \<and> disk w' = disk w
       \<and> entropy w' = tl (entropy w)"
  using assms
  by (auto simp add: getrandom_def log_def split: list.splits rand_reply.splits)

lemma random_data_Inr:
  assumes "random_data w = (Inr d, w')"
  shows "\<exists>a. length a \<le> 2 \<and> length d \<le> from_bytes_little a
       \<and> trace w' = trace w @ [Getrandom 2 a, Getrandom (from_bytes_little a) d]
       \<and> files w' = files w \<and> total w' = total w \<and> handles w' = handles w \<and> disk w' = disk w"
proof -
  from assms obtain a w1 where
    size: "getrandom 2 w = (Inr a, w1)" and content: "getrandom (from_bytes_little a) w1 = (Inr d, w')"
    by (auto simp add: random_data_def random_size_def split: prod.splits sum.splits)
  from getrandom_Inr [OF size] getrandom_Inr [OF content] show ?thesis
    by auto
qed

lemma random_data_Inl:
  assumes "random_data w = (Inl e, w')"
  shows "e = OSError_getrandom
       \<and> files w' = files w \<and> total w' = total w \<and> handles w' = handles w \<and> disk w' = disk w
       \<and> (trace w' = trace w @ [Getrandom_failed 2]
          \<or> (\<exists>a. length a \<le> 2
                \<and> trace w' = trace w @ [Getrandom 2 a, Getrandom_failed (from_bytes_little a)]))"
proof -
  from assms consider
      (size) "getrandom 2 w = (Inl e, w')"
    | (content) a w1 where "getrandom 2 w = (Inr a, w1)" "getrandom (from_bytes_little a) w1 = (Inl e, w')"
    by (auto simp add: random_data_def random_size_def split: prod.splits sum.splits)
  then show ?thesis
  proof cases
    case size
    from getrandom_Inl [OF size] show ?thesis by simp
  next
    case content
    from getrandom_Inr [OF content(1)] getrandom_Inl [OF content(2)] show ?thesis
      by auto
  qed
qed

lemma random_entry_Inr:
  assumes "random_entry w = (Inr buf, w')"
  shows "\<exists>a d. buf = record_bytes d \<and> length a \<le> 2 \<and> length d \<le> from_bytes_little a
       \<and> trace w' = trace w @ [Getrandom 2 a, Getrandom (from_bytes_little a) d, Printed (console_line d)]
       \<and> files w' = files w \<and> total w' = total w \<and> handles w' = handles w \<and> disk w' = disk w"
proof -
  from assms obtain d w1 where
    draw: "random_data w = (Inr d, w1)" and enc: "encode_entry d w1 = (Inr buf, w')"
    by (auto simp add: random_entry_def split: prod.splits sum.splits)
  from random_data_Inr [OF draw] obtain a where a:
    "length a \<le> 2" "length d \<le> from_bytes_little a"
    "trace w1 = trace w @ [Getrandom 2 a, Getrandom (from_bytes_little a) d]"
    "files w1 = files w" "total w1 = total w" "handles w1 = handles w" "disk w1 = disk w"
    by blast
  have "length d < 2 ^ 64"
    using a(2) from_bytes_little_16_bit [OF a(1)] by simp
  from enc encode_entry_Inr [OF this, of w1]
  have "buf = record_bytes d" "w' = print (console_line d) w1"
    by simp_all
  with a show ?thesis
    by (auto simp add: print_def log_def)
qed

lemma random_entry_Inl:
  assumes "random_entry w = (Inl e, w')"
  shows "e = OSError_getrandom
       \<and> files w' = files w \<and> total w' = total w \<and> handles w' = handles w \<and> disk w' = disk w
       \<and> (trace w' = trace w @ [Getrandom_failed 2]
          \<or> (\<exists>a. length a \<le> 2
                \<and> trace w' = trace w @ [Getrandom 2 a, Getrandom_failed (from_bytes_little a)]))"
proof -
  from assms consider
      (draw) "random_data w = (Inl e, w')"
    | (enc) d w1 where "random_data w = (Inr d, w1)" "encode_entry d w1 = (Inl e, w')"
    by (auto simp add: random_entry_def split: prod.splits sum.splits)
  then show ?thesis
  proof cases
    case draw
    then show ?thesis by (rule random_data_Inl)
  next
    case enc
    from random_data_Inr [OF enc(1)] obtain a where
      "length a \<le> 2" "length d \<le> from_bytes_little a"
      by blast
    then have "length d < 2 ^ 64"
      using from_bytes_little_16_bit [of a] by simp
    from enc(2) encode_entry_Inr [OF this, of w1] show ?thesis
      by simp
  qed
qed

lemma fp_write_Inr:
  assumes "fp_write fp buf w = (Inr k, w')"
  shows "k = length buf \<and> trace w' = trace w @ [Written buf]
       \<and> files w' = append_file fp buf (files w)
       \<and> total w' = total w \<and> handles w' = handles w \<and> entropy w' = entropy w"
  using assms
  by (auto simp add: fp_write_def log_def split: list.splits write_reply.splits)

lemma fp_write_Inl:
  assumes "fp_write fp buf w = (Inl e, w')"
  shows "e = OSError_write \<and> total w' = total w \<and> handles w' = handles w \<and> entropy w' = entropy w
       \<and> (\<exists>k. trace w' = trace w @ [Write_failed buf k]
              \<and> files w' = append_file fp (take k buf) (files w))"
  using assms
  by (auto simp add: fp_write_def log_def split: list.splits write_reply.splits)

section \<open>The loop\<close>

text \<open>
  A loop that ran to its end: the draws (size bytes and payload) of its iterations, and
  the state after each of them.
\<close>

lemma loop_completed:
  assumes "loop fp n w = (Inr u, w')" and "files w fp = Some old"
  shows "\<exists>draws. length draws = n
       \<and> (\<forall>ad \<in> set draws. length (fst ad) \<le> 2 \<and> length (snd ad) \<le> from_bytes_little (fst ad))
       \<and> (\<forall>j \<le> n. \<exists>wj. loop fp j w = (Inr (), wj)
            \<and> trace wj = trace w @ concat (map iteration_events (take j draws))
            \<and> files wj = (files w)(fp \<mapsto> old @ concat (map (record_bytes \<circ> snd) (take j draws)))
            \<and> total wj = total w + sum_list (map (\<lambda>ad. 38 + length (snd ad)) (take j draws))
            \<and> handles wj = handles w)"
  using assms
proof (induction n arbitrary: w old)
  case 0
  then show ?case
    by (simp add: map_upd_triv)
next
  case (Suc n)
  from Suc.prems(1) obtain buf w1 k w2 where
    entry: "random_entry w = (Inr buf, w1)" and
    wr: "fp_write fp buf w1 = (Inr k, w2)" and
    rest: "loop fp n (w2\<lparr>total := total w2 + k\<rparr>) = (Inr u, w')"
    by (auto split: prod.splits sum.splits)
  let ?w3 = "w2\<lparr>total := total w2 + k\<rparr>"
  from random_entry_Inr [OF entry] obtain a d where
    buf: "buf = record_bytes d" and
    bounds: "length a \<le> 2" "length d \<le> from_bytes_little a" and
    tr1: "trace w1 = trace w @ [Getrandom 2 a, Getrandom (from_bytes_little a) d, Printed (console_line d)]" and
    fr1: "files w1 = files w" "total w1 = total w" "handles w1 = handles w"
    by blast
  from fp_write_Inr [OF wr] have
    k: "k = length buf" and
    tr2: "trace w2 = trace w1 @ [Written buf]" and
    fr2: "files w2 = append_file fp buf (files w1)" "total w2 = total w1" "handles w2 = handles w1"
    by simp_all
  have tr3: "trace ?w3 = trace w @ iteration_events (a, d)"
    by (simp add: tr1 tr2 buf iteration_events_def)
  have files3: "files ?w3 = (files w)(fp \<mapsto> old @ record_bytes d)"
    by (simp add: fr1 fr2 buf append_file_def Suc.prems(2))
  have total3: "total ?w3 = total w + (38 + length d)"
    by (simp add: fr1 fr2 k buf)
  have handles3: "handles ?w3 = handles w"
    by (simp add: fr1 fr2)
  have "files ?w3 fp = Some (old @ record_bytes d)"
    by (simp add: files3)
  from Suc.IH [OF rest this] obtain draws where
    len: "length draws = n" and
    bounded: "\<forall>ad \<in> set draws. length (fst ad) \<le> 2 \<and> length (snd ad) \<le> from_bytes_little (fst ad)" and
    prefixes: "\<forall>j \<le> n. \<exists>wj. loop fp j ?w3 = (Inr (), wj)
            \<and> trace wj = trace ?w3 @ concat (map iteration_events (take j draws))
            \<and> files wj = (files ?w3)(fp \<mapsto> (old @ record_bytes d) @ concat (map (record_bytes \<circ> snd) (take j draws)))
            \<and> total wj = total ?w3 + sum_list (map (\<lambda>ad. 38 + length (snd ad)) (take j draws))
            \<and> handles wj = handles ?w3"
    by blast
  let ?draws = "(a, d) # draws"
  have "\<exists>wj. loop fp j w = (Inr (), wj)
            \<and> trace wj = trace w @ concat (map iteration_events (take j ?draws))
            \<and> files wj = (files w)(fp \<mapsto> old @ concat (map (record_bytes \<circ> snd) (take j ?draws)))
            \<and> total wj = total w + sum_list (map (\<lambda>ad. 38 + length (snd ad)) (take j ?draws))
            \<and> handles wj = handles w" if "j \<le> Suc n" for j
  proof (cases j)
    case 0
    then show ?thesis
      by (simp add: map_upd_triv Suc.prems(2))
  next
    case (Suc i)
    with that have "i \<le> n" by simp
    with prefixes obtain wi where wi:
      "loop fp i ?w3 = (Inr (), wi)"
      "trace wi = trace ?w3 @ concat (map iteration_events (take i draws))"
      "files wi = (files ?w3)(fp \<mapsto> (old @ record_bytes d) @ concat (map (record_bytes \<circ> snd) (take i draws)))"
      "total wi = total ?w3 + sum_list (map (\<lambda>ad. 38 + length (snd ad)) (take i draws))"
      "handles wi = handles ?w3"
      by blast
    have "loop fp j w = (Inr (), wi)"
      by (simp add: Suc entry wr wi(1))
    moreover have "trace wi = trace w @ concat (map iteration_events (take j ?draws))"
      by (simp add: Suc wi(2) tr3)
    moreover have "files wi = (files w)(fp \<mapsto> old @ concat (map (record_bytes \<circ> snd) (take j ?draws)))"
      by (simp add: Suc wi(3) files3)
    moreover have "total wi = total w + sum_list (map (\<lambda>ad. 38 + length (snd ad)) (take j ?draws))"
      by (simp add: Suc wi(4) total3)
    moreover have "handles wi = handles w"
      by (simp add: wi(5) handles3)
    ultimately show ?thesis by blast
  qed
  moreover have "length ?draws = Suc n"
    by (simp add: len)
  moreover have "\<forall>ad \<in> set ?draws. length (fst ad) \<le> 2 \<and> length (snd ad) \<le> from_bytes_little (fst ad)"
    using bounded bounds by simp
  ultimately show ?case by blast
qed

text \<open>
  A loop that was aborted: the draws of the iterations it completed, the interactions of
  the one that failed (\<open>tail\<close>) and the bytes of its record that reached the file
  (\<open>part\<close>).
\<close>

lemma loop_aborted:
  assumes "loop fp n w = (Inl e, w')" and "files w fp = Some old"
  shows "\<exists>draws tail part. length draws < n
       \<and> (\<forall>ad \<in> set draws. length (fst ad) \<le> 2 \<and> length (snd ad) \<le> from_bytes_little (fst ad))
       \<and> trace w' = trace w @ concat (map iteration_events draws) @ tail
       \<and> files w' = (files w)(fp \<mapsto> old @ concat (map (record_bytes \<circ> snd) draws) @ part)
       \<and> total w' = total w + sum_list (map (\<lambda>ad. 38 + length (snd ad)) draws)
       \<and> handles w' = handles w
       \<and> (\<exists>wk. loop fp (length draws) w = (Inr (), wk) \<and> trace w' = trace wk @ tail
              \<and> files w' = append_file fp part (files wk) \<and> total w' = total wk)
       \<and> (e = OSError_getrandom \<and> part = []
            \<and> (tail = [Getrandom_failed 2]
                \<or> (\<exists>a. length a \<le> 2 \<and> tail = [Getrandom 2 a, Getrandom_failed (from_bytes_little a)]))
          \<or> e = OSError_write
            \<and> (\<exists>a d k. length a \<le> 2 \<and> length d \<le> from_bytes_little a
                  \<and> tail = [Getrandom 2 a, Getrandom (from_bytes_little a) d,
                            Printed (console_line d), Write_failed (record_bytes d) k]
                  \<and> part = take k (record_bytes d)))"
  using assms
proof (induction n arbitrary: w old)
  case 0
  then show ?case by simp
next
  case (Suc n)
  let ?ends = "\<lambda>tail part.
          e = OSError_getrandom \<and> part = []
            \<and> (tail = [Getrandom_failed 2]
                \<or> (\<exists>a. length a \<le> 2 \<and> tail = [Getrandom 2 a, Getrandom_failed (from_bytes_little a)]))
          \<or> e = OSError_write
            \<and> (\<exists>a d k. length a \<le> 2 \<and> length d \<le> from_bytes_little a
                  \<and> tail = [Getrandom 2 a, Getrandom (from_bytes_little a) d,
                            Printed (console_line d), Write_failed (record_bytes d) k]
                  \<and> part = take k (record_bytes d))"
  let ?shape = "\<lambda>draws tail part. length draws < Suc n
       \<and> (\<forall>ad \<in> set draws. length (fst ad) \<le> 2 \<and> length (snd ad) \<le> from_bytes_little (fst ad))
       \<and> trace w' = trace w @ concat (map iteration_events draws) @ tail
       \<and> files w' = (files w)(fp \<mapsto> old @ concat (map (record_bytes \<circ> snd) draws) @ part)
       \<and> total w' = total w + sum_list (map (\<lambda>ad. 38 + length (snd ad)) draws)
       \<and> handles w' = handles w
       \<and> (\<exists>wk. loop fp (length draws) w = (Inr (), wk) \<and> trace w' = trace wk @ tail
              \<and> files w' = append_file fp part (files wk) \<and> total w' = total wk)
       \<and> ?ends tail part"
  from Suc.prems(1) consider
      (entry) "random_entry w = (Inl e, w')"
    | (wr) buf w1 where "random_entry w = (Inr buf, w1)" "fp_write fp buf w1 = (Inl e, w')"
    | (later) buf w1 k w2 where "random_entry w = (Inr buf, w1)" "fp_write fp buf w1 = (Inr k, w2)"
        "loop fp n (w2\<lparr>total := total w2 + k\<rparr>) = (Inl e, w')"
    by (auto split: prod.splits sum.splits)
  then have "\<exists>draws tail part. ?shape draws tail part"
  proof cases
    case entry
    from random_entry_Inl [OF entry] obtain tail where
      "e = OSError_getrandom" "files w' = files w" "total w' = total w" "handles w' = handles w"
      "trace w' = trace w @ tail"
      "tail = [Getrandom_failed 2]
         \<or> (\<exists>a. length a \<le> 2 \<and> tail = [Getrandom 2 a, Getrandom_failed (from_bytes_little a)])"
      by auto
    then have "?shape [] tail []"
      by (simp add: map_upd_triv append_file_def Suc.prems(2))
    then show ?thesis by blast
  next
    case wr
    from random_entry_Inr [OF wr(1)] obtain a d where
      buf: "buf = record_bytes d" and
      bounds: "length a \<le> 2" "length d \<le> from_bytes_little a" and
      tr1: "trace w1 = trace w @ [Getrandom 2 a, Getrandom (from_bytes_little a) d, Printed (console_line d)]" and
      fr1: "files w1 = files w" "total w1 = total w" "handles w1 = handles w"
      by blast
    from fp_write_Inl [OF wr(2)] obtain k where
      "e = OSError_write" "total w' = total w1" "handles w' = handles w1"
      "trace w' = trace w1 @ [Write_failed buf k]"
      "files w' = append_file fp (take k buf) (files w1)"
      by blast
    with buf bounds tr1 fr1 have
      "?shape [] [Getrandom 2 a, Getrandom (from_bytes_little a) d,
                  Printed (console_line d), Write_failed (record_bytes d) k] (take k (record_bytes d))"
      by (simp add: append_file_def Suc.prems(2))
    then show ?thesis by blast
  next
    case later
    let ?w3 = "w2\<lparr>total := total w2 + k\<rparr>"
    from random_entry_Inr [OF later(1)] obtain a d where
      buf: "buf = record_bytes d" and
      bounds: "length a \<le> 2" "length d \<le> from_bytes_little a" and
      tr1: "trace w1 = trace w @ [Getrandom 2 a, Getrandom (from_bytes_little a) d, Printed (console_line d)]" and
      fr1: "files w1 = files w" "total w1 = total w" "handles w1 = handles w"
      by blast
    from fp_write_Inr [OF later(2)] have
      k: "k = length buf" and
      tr2: "trace w2 = trace w1 @ [Written buf]" and
      fr2: "files w2 = append_file fp buf (files w1)" "total w2 = total w1" "handles w2 = handles w1"
      by simp_all
    have tr3: "trace ?w3 = trace w @ iteration_events (a, d)"
      by (simp add: tr1 tr2 buf iteration_events_def)
    have files3: "files ?w3 = (files w)(fp \<mapsto> old @ record_bytes d)"
      by (simp add: fr1 fr2 buf append_file_def Suc.prems(2))
    have total3: "total ?w3 = total w + (38 + length d)"
      by (simp add: fr1 fr2 k buf)
    have handles3: "handles ?w3 = handles w"
      by (simp add: fr1 fr2)
    have "files ?w3 fp = Some (old @ record_bytes d)"
      by (simp add: files3)
    from Suc.IH [OF later(3) this] obtain draws tail part where
      len: "length draws < n" and
      bounded: "\<forall>ad \<in> set draws. length (fst ad) \<le> 2 \<and> length (snd ad) \<le> from_bytes_little (fst ad)" and
      tr: "trace w' = trace ?w3 @ concat (map iteration_events draws) @ tail" and
      fl: "files w' = (files ?w3)(fp \<mapsto> (old @ record_bytes d) @ concat (map (record_bytes \<circ> snd) draws) @ part)" and
      last: "\<exists>wk. loop fp (length draws) ?w3 = (Inr (), wk) \<and> trace w' = trace wk @ tail
              \<and> files w' = append_file fp part (files wk) \<and> total w' = total wk" and
      tot: "total w' = total ?w3 + sum_list (map (\<lambda>ad. 38 + length (snd ad)) draws)" and
      hd: "handles w' = handles ?w3" and
      ends: "?ends tail part"
      by blast
    from later(1,2) have step: "loop fp (Suc j) w = loop fp j ?w3" for j
      by simp
    have "length ((a, d) # draws) < Suc n"
      using len by simp
    moreover have "\<forall>ad \<in> set ((a, d) # draws). length (fst ad) \<le> 2 \<and> length (snd ad) \<le> from_bytes_little (fst ad)"
      using bounded bounds by simp
    moreover have "trace w' = trace w @ concat (map iteration_events ((a, d) # draws)) @ tail"
      by (simp add: tr tr3)
    moreover have "files w' = (files w)(fp \<mapsto> old @ concat (map (record_bytes \<circ> snd) ((a, d) # draws)) @ part)"
      by (simp add: fl files3)
    moreover have "total w' = total w + sum_list (map (\<lambda>ad. 38 + length (snd ad)) ((a, d) # draws))"
      by (simp add: tot total3)
    moreover have "handles w' = handles w"
      by (simp add: hd handles3)
    moreover have "\<exists>wk. loop fp (length ((a, d) # draws)) w = (Inr (), wk) \<and> trace w' = trace wk @ tail
              \<and> files w' = append_file fp part (files wk) \<and> total w' = total wk"
    proof -
      from last obtain wk where wk: "loop fp (length draws) ?w3 = (Inr (), wk)"
        "trace w' = trace wk @ tail" "files w' = append_file fp part (files wk)" "total w' = total wk"
        by blast
      have "loop fp (length ((a, d) # draws)) w = (Inr (), wk)"
        using step [of "length draws"] wk(1) by (simp only: length_Cons)
      with wk(2-4) show ?thesis by blast
    qed
    ultimately have "?shape ((a, d) # draws) tail part"
      using ends by blast
    then show ?thesis by blast
  qed
  then show ?case by blast
qed

section \<open>The whole script\<close>

lemma length_concat_records:
  "length (concat (map (record_bytes \<circ> snd) draws)) = sum_list (map (\<lambda>ad. 38 + length (snd ad)) draws)"
  by (induction draws) simp_all

lemma loop_numeral:
  "loop fp (numeral k) w =
     (case random_entry w of
        (Inl e, w1) \<Rightarrow> (Inl e, w1)
      | (Inr buf, w1) \<Rightarrow>
          (case fp_write fp buf w1 of
             (Inl e, w2) \<Rightarrow> (Inl e, w2)
           | (Inr k', w2) \<Rightarrow> loop fp (pred_numeral k) (w2\<lparr>total := total w2 + k'\<rparr>)))"
proof -
  have "loop fp (Suc (pred_numeral k)) w =
     (case random_entry w of
        (Inl e, w1) \<Rightarrow> (Inl e, w1)
      | (Inr buf, w1) \<Rightarrow>
          (case fp_write fp buf w1 of
             (Inl e, w2) \<Rightarrow> (Inl e, w2)
           | (Inr k', w2) \<Rightarrow> loop fp (pred_numeral k) (w2\<lparr>total := total w2 + k'\<rparr>)))"
    by (rule loop.simps)
  then show ?thesis
    by (simp only: numeral_eq_Suc [of k, symmetric])
qed

lemma open_xb_None:
  assumes "files w path = None"
  shows "open_xb path w =
     (Inr path, log (Opened path) (w\<lparr>files := (files w)(path \<mapsto> []), handles := insert path (handles w)\<rparr>))"
  using assms by (simp add: open_xb_def)

lemma open_xb_Some:
  assumes "files w path = Some old"
  shows "open_xb path w = (Inl FileExistsError, log (Open_failed path) w)"
  using assms by (simp add: open_xb_def)

lemma main_opened:
  assumes "files w ''test.btdb'' = None"
  shows "main w =
     (case loop ''test.btdb'' 100000 ((snd (open_xb ''test.btdb'' w))\<lparr>total := 0\<rparr>) of
        (Inl e, w2) \<Rightarrow> (Inl e, w2)
      | (Inr u, w2) \<Rightarrow> (Inr (), print (str_nat (total w2)) w2))"
  by (simp add: main_def open_xb_None [OF assms])

lemma start_state:
  assumes "files w path = None"
  shows "trace ((snd (open_xb path w))\<lparr>total := 0\<rparr>) = trace w @ [Opened path]"
    and "files ((snd (open_xb path w))\<lparr>total := 0\<rparr>) = (files w)(path \<mapsto> [])"
    and "handles ((snd (open_xb path w))\<lparr>total := 0\<rparr>) = insert path (handles w)"
    and "total ((snd (open_xb path w))\<lparr>total := 0\<rparr>) = 0"
    and "entropy ((snd (open_xb path w))\<lparr>total := 0\<rparr>) = entropy w"
    and "disk ((snd (open_xb path w))\<lparr>total := 0\<rparr>) = disk w"
  by (simp_all add: open_xb_None [OF assms] log_def)

lemma main_existing:
  assumes "files w ''test.btdb'' = Some old"
  shows "main w = (Inl FileExistsError, log (Open_failed ''test.btdb'') w)"
  by (simp add: main_def open_xb_Some [OF assms])

lemma main_Inr_D:
  assumes "main w = (Inr u, w')"
  shows "files w ''test.btdb'' = None
       \<and> (\<exists>w2. loop ''test.btdb'' 100000 ((snd (open_xb ''test.btdb'' w))\<lparr>total := 0\<rparr>) = (Inr (), w2)
              \<and> w' = print (str_nat (total w2)) w2)"
proof (cases "files w ''test.btdb''")
  case None
  with assms main_opened [OF None] show ?thesis
    by (auto split: prod.splits sum.splits)
next
  case (Some old)
  with assms main_existing [OF Some] show ?thesis by simp
qed

lemma main_Inl_D:
  assumes "main w = (Inl e, w')"
  shows "(\<exists>old. files w ''test.btdb'' = Some old) \<and> e = FileExistsError
           \<and> w' = log (Open_failed ''test.btdb'') w
       \<or> files w ''test.btdb'' = None
           \<and> loop ''test.btdb'' 100000 ((snd (open_xb ''test.btdb'' w))\<lparr>total := 0\<rparr>) = (Inl e, w')"
proof (cases "files w ''test.btdb''")
  case None
  with assms main_opened [OF None] show ?thesis
    by (auto split: prod.splits sum.splits)
next
  case (Some old)
  with assms main_existing [OF Some] show ?thesis by simp
qed

text \<open>
  C6. When \<open>test.btdb\<close> already exists the run fails with \<open>FileExistsError\<close>; every file,
  the existing one included, keeps its content; no entropy has been read, nothing has
  been written and no handle is held: the failed open is the run's only interaction.
\<close>

theorem main_refuses_existing_file:
  assumes "files w ''test.btdb'' = Some old"
  shows "fst (main w) = Inl FileExistsError
       \<and> files (snd (main w)) = files w
       \<and> entropy (snd (main w)) = entropy w
       \<and> disk (snd (main w)) = disk w
       \<and> handles (snd (main w)) = handles w
       \<and> trace (snd (main w)) = trace w @ [Open_failed ''test.btdb'']"
  by (simp add: main_existing [OF assms] log_def)

theorem main_refuses_existing_file_witness:
  "files \<lparr>entropy = [Supplies [1, 0], Supplies [9]], disk = [], files = [''test.btdb'' \<mapsto> [1, 2, 3]],
          handles = {}, trace = [], total = 0\<rparr> ''test.btdb'' = Some [1, 2, 3]
   \<and> fst (main \<lparr>entropy = [Supplies [1, 0], Supplies [9]], disk = [],
                 files = [''test.btdb'' \<mapsto> [1, 2, 3]], handles = {}, trace = [], total = 0\<rparr>)
     = Inl FileExistsError
   \<and> files (snd (main \<lparr>entropy = [Supplies [1, 0], Supplies [9]], disk = [],
                 files = [''test.btdb'' \<mapsto> [1, 2, 3]], handles = {}, trace = [], total = 0\<rparr>))
       ''test.btdb'' = Some [1, 2, 3]
   \<and> entropy (snd (main \<lparr>entropy = [Supplies [1, 0], Supplies [9]], disk = [],
                 files = [''test.btdb'' \<mapsto> [1, 2, 3]], handles = {}, trace = [], total = 0\<rparr>))
     = [Supplies [1, 0], Supplies [9]]
   \<and> trace (snd (main \<lparr>entropy = [Supplies [1, 0], Supplies [9]], disk = [],
                 files = [''test.btdb'' \<mapsto> [1, 2, 3]], handles = {}, trace = [], total = 0\<rparr>))
     = [Open_failed ''test.btdb'']"
  using main_refuses_existing_file [of
      "\<lparr>entropy = [Supplies [1, 0], Supplies [9]], disk = [],
        files = [''test.btdb'' \<mapsto> [1, 2, 3]], handles = {}, trace = [], total = 0\<rparr>" "[1, 2, 3]"]
  by simp

lemma main_fst_snd:
  assumes "files w ''test.btdb'' = None"
    and "fst (loop ''test.btdb'' 100000 ((snd (open_xb ''test.btdb'' w))\<lparr>total := 0\<rparr>)) = Inl e"
  shows "main w = (Inl e, snd (loop ''test.btdb'' 100000 ((snd (open_xb ''test.btdb'' w))\<lparr>total := 0\<rparr>)))"
proof -
  obtain r v where run: "loop ''test.btdb'' 100000 ((snd (open_xb ''test.btdb'' w))\<lparr>total := 0\<rparr>) = (r, v)"
    by (cases "loop ''test.btdb'' 100000 ((snd (open_xb ''test.btdb'' w))\<lparr>total := 0\<rparr>)")
  with assms(2) have "r = Inl e"
    by simp
  with run show ?thesis
    by (simp add: main_opened [OF assms(1)])
qed

lemma iteration_events_eq:
  "iteration_events = (\<lambda>ad. [Getrandom 2 (fst ad), Getrandom (from_bytes_little (fst ad)) (snd ad),
                             Printed (console_line (snd ad)), Written (record_bytes (snd ad))])"
  by (rule ext) (simp add: iteration_events_def)

lemma console_append: "console (xs @ ys) = console xs @ console ys"
  by (induction xs rule: console.induct) simp_all

lemma random_data_delivers:
  assumes "length p \<le> 65535"
    and "entropy v = Supplies (little_digits 2 (length p)) # Supplies p # rest"
  shows "random_data v =
     (Inr p, log (Getrandom (length p) p)
               (log (Getrandom 2 (little_digits 2 (length p))) (v\<lparr>entropy := Supplies p # rest\<rparr>)
                  \<lparr>entropy := rest\<rparr>))"
proof -
  have "from_bytes_little (little_digits 2 (length p)) = length p"
    using assms(1) by (simp add: from_bytes_little_digits)
  then show ?thesis
    by (simp add: random_data_def random_size_def getrandom_def assms(2) log_def)
qed

text \<open>
  A run can complete: the entropy script that answers every size read with two zero
  bytes and every content read with nothing takes the loop through any number of
  iterations.
\<close>

lemma loop_runs_on_empty_payloads:
  assumes "entropy w = concat (replicate n [Supplies [0, 0], Supplies []]) @ rest" and "disk w = []"
  shows "\<exists>w'. loop fp n w = (Inr (), w')"
  using assms
proof (induction n arbitrary: w)
  case 0
  show ?case by simp
next
  case (Suc n)
  obtain w1 where entry: "random_entry w = (Inr (record_bytes []), w1)"
    and w1: "entropy w1 = concat (replicate n [Supplies [0, 0], Supplies []]) @ rest" "disk w1 = []"
    using Suc.prems
    by (simp add: random_entry_def random_data_def random_size_def getrandom_def encode_entry_Inr
        log_def print_def)
  obtain k w2 where wr: "fp_write fp (record_bytes []) w1 = (Inr k, w2)"
    and w2: "entropy w2 = concat (replicate n [Supplies [0, 0], Supplies []]) @ rest" "disk w2 = []"
    using w1 by (simp add: fp_write_def log_def)
  have "\<exists>w'. loop fp n (w2\<lparr>total := total w2 + k\<rparr>) = (Inr (), w')"
    by (rule Suc.IH) (simp_all add: w2)
  then show ?case
    by (simp add: entry wr)
qed

lemma main_runs_on_empty_payloads:
  "\<exists>w'. main \<lparr>entropy = concat (replicate 100000 [Supplies [0, 0], Supplies []]), disk = [],
               files = Map.empty, handles = {}, trace = [], total = 0\<rparr> = (Inr (), w')"
proof -
  let ?w = "\<lparr>entropy = concat (replicate 100000 [Supplies [0, 0], Supplies []]), disk = [],
               files = Map.empty, handles = {}, trace = [], total = 0\<rparr>"
  let ?s = "(snd (open_xb ''test.btdb'' ?w))\<lparr>total := 0\<rparr>"
  have none: "files ?w ''test.btdb'' = None"
    by simp
  have "entropy ?s = concat (replicate 100000 [Supplies [0, 0], Supplies []]) @ []"
    by (simp only: start_state(5) [OF none] state.simps append_Nil2)
  moreover have "disk ?s = []"
    by (simp only: start_state(6) [OF none] state.simps)
  ultimately obtain w2 where "loop ''test.btdb'' 100000 ?s = (Inr (), w2)"
    using loop_runs_on_empty_payloads by blast
  then show ?thesis
    by (simp only: main_opened [OF none] prod.case sum.case) blast
qed

section \<open>The random payload source\<close>

text \<open>
  C4. \<open>random_data\<close> makes two separate reads, the size first: a 2-byte read whose
  answer \<open>a\<close> is taken as an unsigned little-endian number, then a read of that many
  bytes, whose answer is the payload. So a payload never has more than 65535 bytes; and
  every byte string \<open>p\<close> of at most 65535 bytes, the empty one and the longest ones
  included, is the payload when the source supplies the two bytes of \<open>len(p)\<close> and then
  \<open>p\<close>: no length is rejected or treated apart.
\<close>

theorem random_data_length_is_16_bit:
  "(random_data w = (Inr d, w') \<longrightarrow>
        length d \<le> 65535
      \<and> (\<exists>a. length a \<le> 2 \<and> from_bytes_little a \<le> 65535 \<and> length d \<le> from_bytes_little a
            \<and> trace w' = trace w @ [Getrandom 2 a, Getrandom (from_bytes_little a) d]))
   \<and> (length p \<le> 65535 \<and> entropy v = Supplies (little_digits 2 (length p)) # Supplies p # rest \<longrightarrow>
        fst (random_data v) = Inr p
      \<and> entropy (snd (random_data v)) = rest
      \<and> trace (snd (random_data v))
          = trace v @ [Getrandom 2 (little_digits 2 (length p)), Getrandom (length p) p])"
proof (intro conjI impI)
  assume run: "random_data w = (Inr d, w')"
  from random_data_Inr [OF run] obtain a where a:
    "length a \<le> 2" "length d \<le> from_bytes_little a"
    "trace w' = trace w @ [Getrandom 2 a, Getrandom (from_bytes_little a) d]"
    by blast
  from from_bytes_little_16_bit [OF a(1)] have bound: "from_bytes_little a \<le> 65535" .
  with a(2) show "length d \<le> 65535"
    by simp
  from a bound show "\<exists>a. length a \<le> 2 \<and> from_bytes_little a \<le> 65535 \<and> length d \<le> from_bytes_little a
            \<and> trace w' = trace w @ [Getrandom 2 a, Getrandom (from_bytes_little a) d]"
    by blast
next
  assume "length p \<le> 65535 \<and> entropy v = Supplies (little_digits 2 (length p)) # Supplies p # rest"
  then have run: "random_data v =
     (Inr p, log (Getrandom (length p) p)
               (log (Getrandom 2 (little_digits 2 (length p))) (v\<lparr>entropy := Supplies p # rest\<rparr>)
                  \<lparr>entropy := rest\<rparr>))"
    by (simp add: random_data_delivers)
  show "fst (random_data v) = Inr p"
    by (simp add: run)
  show "entropy (snd (random_data v)) = rest"
    by (simp add: run log_def)
  show "trace (snd (random_data v))
          = trace v @ [Getrandom 2 (little_digits 2 (length p)), Getrandom (length p) p]"
    by (simp add: run log_def)
qed

theorem random_data_length_is_16_bit_witness:
  "random_data \<lparr>entropy = [Supplies [255, 255], Supplies (replicate 70000 171)], disk = [],
                 files = Map.empty, handles = {}, trace = [], total = 0\<rparr>
     = (Inr (replicate 65535 171),
        snd (random_data \<lparr>entropy = [Supplies [255, 255], Supplies (replicate 70000 171)], disk = [],
                 files = Map.empty, handles = {}, trace = [], total = 0\<rparr>))
   \<and> length (replicate 65535 (171 :: byte)) = 65535
   \<and> length ([] :: bytes) \<le> 65535
   \<and> fst (random_data \<lparr>entropy = [Supplies [0, 0], Supplies []], disk = [],
                 files = Map.empty, handles = {}, trace = [], total = 0\<rparr>) = Inr []
   \<and> trace (snd (random_data \<lparr>entropy = [Supplies [0, 0], Supplies []], disk = [],
                 files = Map.empty, handles = {}, trace = [], total = 0\<rparr>))
       = [Getrandom 2 [0, 0], Getrandom 0 []]"
proof -
  let ?w = "\<lparr>entropy = [Supplies [255, 255], Supplies (replicate 70000 171)], disk = [],
                 files = Map.empty, handles = {}, trace = [], total = 0\<rparr>"
  let ?v = "\<lparr>entropy = [Supplies [0, 0], Supplies []], disk = [],
                 files = Map.empty, handles = {}, trace = [], total = 0\<rparr>"
  have run: "random_data ?w = (Inr (replicate 65535 171), snd (random_data ?w))"
    by (simp add: random_data_def random_size_def getrandom_def log_def)
  have script: "length ([] :: bytes) \<le> 65535
      \<and> entropy ?v = Supplies (little_digits 2 (length ([] :: bytes))) # Supplies [] # []"
    by (simp add: little_digits_numeral)
  from random_data_length_is_16_bit [of ?w "replicate 65535 171" "snd (random_data ?w)" "[]" ?v "[]"]
    run script
  show ?thesis
    by (simp add: little_digits_numeral)
qed

section \<open>Runs of the script\<close>

text \<open>
  C7. The driver is a loop bounded by the literal 100000. A run that reaches its end has
  made exactly 100000 iterations, and each of them did, in this order: the size read and
  the content read of the payload source, the console line of the encoder, the write of
  the encoded record; the file then holds the 100000 records and the last console line
  is the total.
\<close>

theorem main_runs_100000_iterations:
  assumes "main w = (Inr u, w')"
  shows "\<exists>draws. length draws = 100000
       \<and> trace w' = trace w @ Opened ''test.btdb''
            # concat (map (\<lambda>ad. [Getrandom 2 (fst ad),
                                 Getrandom (from_bytes_little (fst ad)) (snd ad),
                                 Printed (console_line (snd ad)),
                                 Written (record_bytes (snd ad))]) draws)
            @ [Printed (str_nat (total w'))]
       \<and> files w' = (files w)(''test.btdb'' \<mapsto> concat (map (\<lambda>ad. record_bytes (snd ad)) draws))"
proof -
  let ?s = "(snd (open_xb ''test.btdb'' w))\<lparr>total := 0\<rparr>"
  from main_Inr_D [OF assms] obtain w2 where
    none: "files w ''test.btdb'' = None" and
    run: "loop ''test.btdb'' 100000 ?s = (Inr (), w2)" and
    w': "w' = print (str_nat (total w2)) w2"
    by blast
  have "files ?s ''test.btdb'' = Some []"
    by (simp add: start_state(2) [OF none])
  from loop_completed [OF run this] obtain draws where
    len: "length draws = 100000" and
    prefixes: "\<forall>j \<le> 100000. \<exists>wj. loop ''test.btdb'' j ?s = (Inr (), wj)
            \<and> trace wj = trace ?s @ concat (map iteration_events (take j draws))
            \<and> files wj = (files ?s)(''test.btdb'' \<mapsto> [] @ concat (map (record_bytes \<circ> snd) (take j draws)))
            \<and> total wj = total ?s + sum_list (map (\<lambda>ad. 38 + length (snd ad)) (take j draws))
            \<and> handles wj = handles ?s"
    by blast
  from prefixes run len have
    "trace w2 = trace ?s @ concat (map iteration_events draws)"
    "files w2 = (files ?s)(''test.btdb'' \<mapsto> [] @ concat (map (record_bytes \<circ> snd) draws))"
    by force+
  then have "trace w' = trace w @ Opened ''test.btdb'' # concat (map iteration_events draws)
                 @ [Printed (str_nat (total w'))]"
    and "files w' = (files w)(''test.btdb'' \<mapsto> concat (map (\<lambda>ad. record_bytes (snd ad)) draws))"
    by (simp_all add: w' print_def log_def start_state [OF none] comp_def)
  moreover have "iteration_events = (\<lambda>ad. [Getrandom 2 (fst ad),
                                 Getrandom (from_bytes_little (fst ad)) (snd ad),
                                 Printed (console_line (snd ad)),
                                 Written (record_bytes (snd ad))])"
    by (rule ext) (simp add: iteration_events_def)
  ultimately show ?thesis
    using len by auto
qed

theorem main_runs_100000_iterations_witness:
  "\<exists>w' draws.
      main \<lparr>entropy = concat (replicate 100000 [Supplies [0, 0], Supplies []]), disk = [],
            files = Map.empty, handles = {}, trace = [], total = 0\<rparr> = (Inr (), w')
    \<and> length draws = 100000
    \<and> trace w' = Opened ''test.btdb''
         # concat (map (\<lambda>ad. [Getrandom 2 (fst ad),
                              Getrandom (from_bytes_little (fst ad)) (snd ad),
                              Printed (console_line (snd ad)),
                              Written (record_bytes (snd ad))]) draws)
         @ [Printed (str_nat (total w'))]"
proof -
  obtain w' where run:
    "main \<lparr>entropy = concat (replicate 100000 [Supplies [0, 0], Supplies []]), disk = [],
            files = Map.empty, handles = {}, trace = [], total = 0\<rparr> = (Inr (), w')"
    using main_runs_on_empty_payloads by blast
  from main_runs_100000_iterations [OF run] obtain draws where
    "length draws = 100000"
    "trace w' = trace \<lparr>entropy = concat (replicate 100000 [Supplies [0, 0], Supplies []]), disk = [],
            files = Map.empty, handles = {}, trace = [], total = 0\<rparr> @ Opened ''test.btdb''
         # concat (map (\<lambda>ad. [Getrandom 2 (fst ad),
                              Getrandom (from_bytes_little (fst ad)) (snd ad),
                              Printed (console_line (snd ad)),
                              Written (record_bytes (snd ad))]) draws)
         @ [Printed (str_nat (total w'))]"
    by blast
  with run show ?thesis
    by (simp only: state.simps append_Nil) blast
qed

text \<open>
  C5. In a run that completes, with \<open>draws\<close> the 100000 pairs of size bytes and payload
  the entropy source delivered: after each number \<open>j\<close> of iterations from 0 to 100000
  the counter \<open>total\<close> is the sum of \<open>38 + len(payload)\<close> over the first \<open>j\<close> payloads and
  the file holds exactly their \<open>j\<close> records, one after the other, so its size is \<open>total\<close>;
  the same holds at the end of the run.
\<close>

theorem total_is_sum_of_record_sizes:
  assumes "main w = (Inr u, w')"
  shows "\<exists>draws. length draws = 100000
       \<and> trace w' = trace w @ Opened ''test.btdb'' # concat (map iteration_events draws)
            @ [Printed (str_nat (total w'))]
       \<and> (\<forall>j \<le> 100000. \<exists>wj.
              loop ''test.btdb'' j ((snd (open_xb ''test.btdb'' w))\<lparr>total := 0\<rparr>) = (Inr (), wj)
            \<and> total wj = sum_list (map (\<lambda>ad. 38 + length (snd ad)) (take j draws))
            \<and> files wj ''test.btdb'' = Some (concat (map (\<lambda>ad. record_bytes (snd ad)) (take j draws)))
            \<and> length (concat (map (\<lambda>ad. record_bytes (snd ad)) (take j draws))) = total wj)
       \<and> total w' = sum_list (map (\<lambda>ad. 38 + length (snd ad)) draws)
       \<and> files w' ''test.btdb'' = Some (concat (map (\<lambda>ad. record_bytes (snd ad)) draws))
       \<and> length (concat (map (\<lambda>ad. record_bytes (snd ad)) draws)) = total w'"
proof -
  let ?s = "(snd (open_xb ''test.btdb'' w))\<lparr>total := 0\<rparr>"
  from main_Inr_D [OF assms] obtain w2 where
    none: "files w ''test.btdb'' = None" and
    run: "loop ''test.btdb'' 100000 ?s = (Inr (), w2)" and
    w': "w' = print (str_nat (total w2)) w2"
    by blast
  have "files ?s ''test.btdb'' = Some []"
    by (simp add: start_state(2) [OF none])
  from loop_completed [OF run this] obtain draws where
    len: "length draws = 100000" and
    prefixes: "\<forall>j \<le> 100000. \<exists>wj. loop ''test.btdb'' j ?s = (Inr (), wj)
            \<and> trace wj = trace ?s @ concat (map iteration_events (take j draws))
            \<and> files wj = (files ?s)(''test.btdb'' \<mapsto> [] @ concat (map (record_bytes \<circ> snd) (take j draws)))
            \<and> total wj = total ?s + sum_list (map (\<lambda>ad. 38 + length (snd ad)) (take j draws))
            \<and> handles wj = handles ?s"
    by blast
  have after: "\<exists>wj. loop ''test.btdb'' j ?s = (Inr (), wj)
            \<and> trace wj = trace w @ Opened ''test.btdb'' # concat (map iteration_events (take j draws))
            \<and> total wj = sum_list (map (\<lambda>ad. 38 + length (snd ad)) (take j draws))
            \<and> files wj ''test.btdb'' = Some (concat (map (\<lambda>ad. record_bytes (snd ad)) (take j draws)))
            \<and> length (concat (map (\<lambda>ad. record_bytes (snd ad)) (take j draws))) = total wj"
    if "j \<le> 100000" for j
  proof -
    from prefixes that obtain wj where wj:
      "loop ''test.btdb'' j ?s = (Inr (), wj)"
      "trace wj = trace ?s @ concat (map iteration_events (take j draws))"
      "files wj = (files ?s)(''test.btdb'' \<mapsto> [] @ concat (map (record_bytes \<circ> snd) (take j draws)))"
      "total wj = total ?s + sum_list (map (\<lambda>ad. 38 + length (snd ad)) (take j draws))"
      by blast
    have "trace wj = trace w @ Opened ''test.btdb'' # concat (map iteration_events (take j draws))"
      by (simp add: wj(2) start_state(1) [OF none])
    moreover have "total wj = sum_list (map (\<lambda>ad. 38 + length (snd ad)) (take j draws))"
      by (simp add: wj(4) start_state(4) [OF none])
    moreover have "files wj ''test.btdb'' = Some (concat (map (\<lambda>ad. record_bytes (snd ad)) (take j draws)))"
      by (simp add: wj(3) comp_def)
    moreover have "length (concat (map (\<lambda>ad. record_bytes (snd ad)) (take j draws)))
        = sum_list (map (\<lambda>ad. 38 + length (snd ad)) (take j draws))"
      using length_concat_records [of "take j draws"] by (simp add: comp_def)
    ultimately show ?thesis
      using wj(1) by auto
  qed
  from after [of 100000] run len have
    "trace w2 = trace w @ Opened ''test.btdb'' # concat (map iteration_events draws)"
    "total w2 = sum_list (map (\<lambda>ad. 38 + length (snd ad)) draws)"
    "files w2 ''test.btdb'' = Some (concat (map (\<lambda>ad. record_bytes (snd ad)) draws))"
    "length (concat (map (\<lambda>ad. record_bytes (snd ad)) draws)) = total w2"
    by auto
  then have
    "trace w' = trace w @ Opened ''test.btdb'' # concat (map iteration_events draws)
        @ [Printed (str_nat (total w'))]"
    "total w' = sum_list (map (\<lambda>ad. 38 + length (snd ad)) draws)"
    "files w' ''test.btdb'' = Some (concat (map (\<lambda>ad. record_bytes (snd ad)) draws))"
    "length (concat (map (\<lambda>ad. record_bytes (snd ad)) draws)) = total w'"
    by (simp_all add: w' print_def log_def)
  with len after show ?thesis
    by blast
qed

theorem total_is_sum_of_record_sizes_witness:
  "\<exists>w' (draws :: (bytes \<times> bytes) list) w7.
      main \<lparr>entropy = concat (replicate 100000 [Supplies [0, 0], Supplies []]), disk = [],
            files = Map.empty, handles = {}, trace = [], total = 0\<rparr> = (Inr (), w')
    \<and> length draws = 100000
    \<and> (7::nat) \<le> 100000
    \<and> loop ''test.btdb'' 7
         ((snd (open_xb ''test.btdb''
            \<lparr>entropy = concat (replicate 100000 [Supplies [0, 0], Supplies []]), disk = [],
             files = Map.empty, handles = {}, trace = [], total = 0\<rparr>))\<lparr>total := 0\<rparr>) = (Inr (), w7)
    \<and> total w7 = sum_list (map (\<lambda>ad. 38 + length (snd ad)) (take 7 draws))
    \<and> files w7 ''test.btdb'' = Some (concat (map (\<lambda>ad. record_bytes (snd ad)) (take 7 draws)))
    \<and> total w' = sum_list (map (\<lambda>ad. 38 + length (snd ad)) draws)
    \<and> files w' ''test.btdb'' = Some (concat (map (\<lambda>ad. record_bytes (snd ad)) draws))
    \<and> length (concat (map (\<lambda>ad. record_bytes (snd ad)) draws)) = total w'"
proof -
  let ?w = "\<lparr>entropy = concat (replicate 100000 [Supplies [0, 0], Supplies []]), disk = [],
            files = Map.empty, handles = {}, trace = [], total = 0\<rparr>"
  obtain w' where run: "main ?w = (Inr (), w')"
    using main_runs_on_empty_payloads by blast
  from total_is_sum_of_record_sizes [OF run] obtain draws :: "(bytes \<times> bytes) list" where
    all: "length draws = 100000"
    "\<forall>j \<le> 100000. \<exists>wj.
              loop ''test.btdb'' j ((snd (open_xb ''test.btdb'' ?w))\<lparr>total := 0\<rparr>) = (Inr (), wj)
            \<and> total wj = sum_list (map (\<lambda>ad. 38 + length (snd ad)) (take j draws))
            \<and> files wj ''test.btdb'' = Some (concat (map (\<lambda>ad. record_bytes (snd ad)) (take j draws)))
            \<and> length (concat (map (\<lambda>ad. record_bytes (snd ad)) (take j draws))) = total wj"
    "total w' = sum_list (map (\<lambda>ad. 38 + length (snd ad)) draws)"
    "files w' ''test.btdb'' = Some (concat (map (\<lambda>ad. record_bytes (snd ad)) draws))"
    "length (concat (map (\<lambda>ad. record_bytes (snd ad)) draws)) = total w'"
    by (elim exE conjE) blast
  have "(7::nat) \<le> 100000"
    by simp
  with all(2) obtain w7 where
    "loop ''test.btdb'' 7 ((snd (open_xb ''test.btdb'' ?w))\<lparr>total := 0\<rparr>) = (Inr (), w7)"
    "total w7 = sum_list (map (\<lambda>ad. 38 + length (snd ad)) (take 7 draws))"
    "files w7 ''test.btdb'' = Some (concat (map (\<lambda>ad. record_bytes (snd ad)) (take 7 draws)))"
    by blast
  with run all(1,3,4,5) show ?thesis
    by (intro exI [of _ w'] exI [of _ draws] exI [of _ w7] conjI) simp_all
qed

text \<open>
  C8. When a run ends with the entropy source failing, whether on a size read or on a
  content read, the failed read is the run's last interaction, and the file and the
  counter \<open>total\<close> are those of the state after the last complete iteration: the file
  holds whole records only.
\<close>

theorem entropy_failure_writes_no_partial_record:
  assumes "main w = (Inl OSError_getrandom, w')"
  shows "\<exists>k wk tail. k < 100000
       \<and> loop ''test.btdb'' k ((snd (open_xb ''test.btdb'' w))\<lparr>total := 0\<rparr>) = (Inr (), wk)
       \<and> files w' = files wk \<and> total w' = total wk \<and> trace w' = trace wk @ tail
       \<and> (tail = [Getrandom_failed 2]
            \<or> (\<exists>a. length a \<le> 2 \<and> tail = [Getrandom 2 a, Getrandom_failed (from_bytes_little a)]))
       \<and> (\<exists>draws :: (bytes \<times> bytes) list. length draws = k
             \<and> files w' ''test.btdb'' = Some (concat (map (\<lambda>ad. record_bytes (snd ad)) draws))
             \<and> total w' = sum_list (map (\<lambda>ad. 38 + length (snd ad)) draws))"
proof -
  let ?s = "(snd (open_xb ''test.btdb'' w))\<lparr>total := 0\<rparr>"
  from main_Inl_D [OF assms] have
    none: "files w ''test.btdb'' = None" and
    run: "loop ''test.btdb'' 100000 ?s = (Inl OSError_getrandom, w')"
    by simp_all
  have start: "files ?s ''test.btdb'' = Some []"
    by (simp add: start_state(2) [OF none])
  from loop_aborted [OF run start] obtain draws :: "(bytes \<times> bytes) list" and tail part wk where
    len: "length draws < 100000" and
    fl: "files w' = (files ?s)(''test.btdb'' \<mapsto> [] @ concat (map (record_bytes \<circ> snd) draws) @ part)" and
    tot: "total w' = total ?s + sum_list (map (\<lambda>ad. 38 + length (snd ad)) draws)" and
    wk: "loop ''test.btdb'' (length draws) ?s = (Inr (), wk)" "trace w' = trace wk @ tail"
      "files w' = append_file ''test.btdb'' part (files wk)" "total w' = total wk" and
    how: "OSError_getrandom = OSError_getrandom \<and> part = []
            \<and> (tail = [Getrandom_failed 2]
                \<or> (\<exists>a. length a \<le> 2 \<and> tail = [Getrandom 2 a, Getrandom_failed (from_bytes_little a)]))
          \<or> OSError_getrandom = OSError_write
            \<and> (\<exists>a d k. length a \<le> 2 \<and> length d \<le> from_bytes_little a
                  \<and> tail = [Getrandom 2 a, Getrandom (from_bytes_little a) d,
                            Printed (console_line d), Write_failed (record_bytes d) k]
                  \<and> part = take k (record_bytes d))"
    by (elim exE conjE) blast
  from how have ends: "part = []" "tail = [Getrandom_failed 2]
         \<or> (\<exists>a. length a \<le> 2 \<and> tail = [Getrandom 2 a, Getrandom_failed (from_bytes_little a)])"
    by simp_all
  from loop_completed [OF wk(1) start] obtain ds :: "(bytes \<times> bytes) list" and wj where
    "loop ''test.btdb'' (length draws) ?s = (Inr (), wj)"
    "files wj = (files ?s)(''test.btdb'' \<mapsto> [] @ concat (map (record_bytes \<circ> snd) (take (length draws) ds)))"
    by (elim exE conjE) (meson order_refl)
  with wk(1) have "files wk ''test.btdb'' \<noteq> None"
    by simp
  then have "files w' = files wk"
    by (auto simp add: wk(3) ends(1) append_file_def map_upd_triv)
  moreover have "files w' ''test.btdb'' = Some (concat (map (\<lambda>ad. record_bytes (snd ad)) draws))"
    by (simp add: fl ends(1) comp_def)
  moreover have "total w' = sum_list (map (\<lambda>ad. 38 + length (snd ad)) draws)"
    by (simp add: tot start_state(4) [OF none])
  ultimately show ?thesis
    using len wk(1,2,4) ends(2) by blast
qed

theorem entropy_failure_writes_no_partial_record_witness:
  "\<exists>w' k wk.
      main \<lparr>entropy = [Supplies [3, 0], Supplies [1, 2, 3], Supplies [5, 0]], disk = [],
            files = Map.empty, handles = {}, trace = [], total = 0\<rparr> = (Inl OSError_getrandom, w')
    \<and> k < 100000
    \<and> loop ''test.btdb'' k
         ((snd (open_xb ''test.btdb''
            \<lparr>entropy = [Supplies [3, 0], Supplies [1, 2, 3], Supplies [5, 0]], disk = [],
             files = Map.empty, handles = {}, trace = [], total = 0\<rparr>))\<lparr>total := 0\<rparr>) = (Inr (), wk)
    \<and> files w' = files wk \<and> total w' = total wk
    \<and> files w' ''test.btdb'' = Some (record_bytes [1, 2, 3]) \<and> total w' = 41"
proof -
  let ?w = "\<lparr>entropy = [Supplies [3, 0], Supplies [1, 2, 3], Supplies [5, 0]], disk = [],
            files = Map.empty, handles = {}, trace = [], total = 0\<rparr>"
  let ?s = "(snd (open_xb ''test.btdb'' ?w))\<lparr>total := 0\<rparr>"
  have none: "files ?w ''test.btdb'' = None"
    by simp
  have two: "fst (loop ''test.btdb'' (Suc (Suc n)) ?s) = Inl OSError_getrandom
      \<and> files (snd (loop ''test.btdb'' (Suc (Suc n)) ?s)) ''test.btdb'' = Some (record_bytes [1, 2, 3])
      \<and> total (snd (loop ''test.btdb'' (Suc (Suc n)) ?s)) = 41" for n
    by (simp add: open_xb_def random_entry_def random_data_def random_size_def getrandom_def
        encode_entry_Inr fp_write_def append_file_def log_def print_def)
  have "(100000::nat) = Suc (Suc 99998)"
    by simp
  with two [of 99998] have run:
    "fst (loop ''test.btdb'' 100000 ?s) = Inl OSError_getrandom"
    "files (snd (loop ''test.btdb'' 100000 ?s)) ''test.btdb'' = Some (record_bytes [1, 2, 3])"
    "total (snd (loop ''test.btdb'' 100000 ?s)) = 41"
    by (simp_all only:)
  from main_fst_snd [OF none run(1)] obtain w' where
    main: "main ?w = (Inl OSError_getrandom, w')" and
    w': "w' = snd (loop ''test.btdb'' 100000 ?s)"
    by blast
  from entropy_failure_writes_no_partial_record [OF main] obtain k wk where
    "k < 100000" "loop ''test.btdb'' k ?s = (Inr (), wk)" "files w' = files wk" "total w' = total wk"
    by (elim exE conjE) blast
  with main run(2,3) w' show ?thesis
    by (intro exI [of _ w'] exI [of _ k] exI [of _ wk] conjI) simp_all
qed

text \<open>
  C10. In every run that got past the open, each write, the failed one included, comes
  directly after the console line of the record it writes: the trace is a sequence of
  completed iterations (two reads, the console line, the write) followed by what the run
  ended with; when it ended with a failed write, the console line of that record is the
  last line on the console.
\<close>

theorem console_line_precedes_write:
  assumes "main w = (r, w')" and "files w ''test.btdb'' = None"
  shows "\<exists>(draws :: (bytes \<times> bytes) list) tail.
      trace w' = trace w @ Opened ''test.btdb''
         # concat (map (\<lambda>ad. [Getrandom 2 (fst ad),
                              Getrandom (from_bytes_little (fst ad)) (snd ad),
                              Printed (console_line (snd ad)),
                              Written (record_bytes (snd ad))]) draws)
         @ tail
    \<and> (r = Inl OSError_write \<longrightarrow>
          (\<exists>a d k. tail = [Getrandom 2 a, Getrandom (from_bytes_little a) d,
                           Printed (console_line d), Write_failed (record_bytes d) k]
                 \<and> last (console (trace w')) = console_line d))
    \<and> (r \<noteq> Inl OSError_write \<longrightarrow>
          (\<forall>buf k. Written buf \<notin> set tail \<and> Write_failed buf k \<notin> set tail))"
proof -
  let ?s = "(snd (open_xb ''test.btdb'' w))\<lparr>total := 0\<rparr>"
  let ?P = "\<lambda>(draws :: (bytes \<times> bytes) list) tail.
      trace w' = trace w @ Opened ''test.btdb'' # concat (map iteration_events draws) @ tail
    \<and> (r = Inl OSError_write \<longrightarrow>
          (\<exists>a d k. tail = [Getrandom 2 a, Getrandom (from_bytes_little a) d,
                           Printed (console_line d), Write_failed (record_bytes d) k]
                 \<and> last (console (trace w')) = console_line d))
    \<and> (r \<noteq> Inl OSError_write \<longrightarrow>
          (\<forall>buf k. Written buf \<notin> set tail \<and> Write_failed buf k \<notin> set tail))"
  have start: "files ?s ''test.btdb'' = Some []"
    by (simp add: start_state(2) [OF assms(2)])
  have "\<exists>draws tail. ?P draws tail"
  proof (cases r)
    case (Inr u)
    with assms(1) have "main w = (Inr u, w')"
      by simp
    from main_Inr_D [OF this] obtain w2 where
      run: "loop ''test.btdb'' 100000 ?s = (Inr (), w2)" and
      w': "w' = print (str_nat (total w2)) w2"
      by blast
    from loop_completed [OF run start] obtain draws :: "(bytes \<times> bytes) list" and wj where
      "loop ''test.btdb'' 100000 ?s = (Inr (), wj)"
      "trace wj = trace ?s @ concat (map iteration_events (take 100000 draws))"
      "length draws = 100000"
      by (elim exE conjE) (meson order_refl)
    with run have "trace w2 = trace ?s @ concat (map iteration_events draws)"
      by simp
    then have "trace w' = trace w @ Opened ''test.btdb'' # concat (map iteration_events draws)
          @ [Printed (str_nat (total w2))]"
      by (simp add: w' print_def log_def start_state(1) [OF assms(2)])
    with Inr have "?P draws [Printed (str_nat (total w2))]"
      by simp
    then show ?thesis by blast
  next
    case (Inl e)
    with assms(1) have "main w = (Inl e, w')"
      by simp
    from main_Inl_D [OF this] assms(2) have run: "loop ''test.btdb'' 100000 ?s = (Inl e, w')"
      by simp
    from loop_aborted [OF run start] obtain draws :: "(bytes \<times> bytes) list" and tail part where
      tr: "trace w' = trace ?s @ concat (map iteration_events draws) @ tail" and
      how: "e = OSError_getrandom \<and> part = []
            \<and> (tail = [Getrandom_failed 2]
                \<or> (\<exists>a. length a \<le> 2 \<and> tail = [Getrandom 2 a, Getrandom_failed (from_bytes_little a)]))
          \<or> e = OSError_write
            \<and> (\<exists>a d k. length a \<le> 2 \<and> length d \<le> from_bytes_little a
                  \<and> tail = [Getrandom 2 a, Getrandom (from_bytes_little a) d,
                            Printed (console_line d), Write_failed (record_bytes d) k]
                  \<and> part = take k (record_bytes d))"
      by (elim exE conjE) blast
    have tr': "trace w' = trace w @ Opened ''test.btdb'' # concat (map iteration_events draws) @ tail"
      by (simp add: tr start_state(1) [OF assms(2)])
    from how show ?thesis
    proof
      assume "e = OSError_getrandom \<and> part = []
            \<and> (tail = [Getrandom_failed 2]
                \<or> (\<exists>a. length a \<le> 2 \<and> tail = [Getrandom 2 a, Getrandom_failed (from_bytes_little a)]))"
      with Inl tr' have "?P draws tail"
        by auto
      then show ?thesis by blast
    next
      assume "e = OSError_write
            \<and> (\<exists>a d k. length a \<le> 2 \<and> length d \<le> from_bytes_little a
                  \<and> tail = [Getrandom 2 a, Getrandom (from_bytes_little a) d,
                            Printed (console_line d), Write_failed (record_bytes d) k]
                  \<and> part = take k (record_bytes d))"
      then obtain a d k where
        e: "e = OSError_write" and
        tail: "tail = [Getrandom 2 a, Getrandom (from_bytes_little a) d,
                            Printed (console_line d), Write_failed (record_bytes d) k]"
        by blast
      have "last (console (trace w')) = console_line d"
        by (simp add: tr' tail console_append del: append_assoc flip: append_Cons)
      with Inl e tr' tail have "?P draws tail"
        by simp
      then show ?thesis by blast
    qed
  qed
  then show ?thesis
    by (simp only: iteration_events_eq)
qed

theorem console_line_precedes_write_witness:
  "\<exists>w' (draws :: (bytes \<times> bytes) list) a d k.
      files \<lparr>entropy = [Supplies [1, 0], Supplies [7]], disk = [Fails 5],
             files = Map.empty, handles = {}, trace = [], total = 0\<rparr> ''test.btdb'' = None
    \<and> main \<lparr>entropy = [Supplies [1, 0], Supplies [7]], disk = [Fails 5],
            files = Map.empty, handles = {}, trace = [], total = 0\<rparr> = (Inl OSError_write, w')
    \<and> trace w' = Opened ''test.btdb''
         # concat (map (\<lambda>ad. [Getrandom 2 (fst ad),
                              Getrandom (from_bytes_little (fst ad)) (snd ad),
                              Printed (console_line (snd ad)),
                              Written (record_bytes (snd ad))]) draws)
         @ [Getrandom 2 a, Getrandom (from_bytes_little a) d,
            Printed (console_line d), Write_failed (record_bytes d) k]
    \<and> last (console (trace w')) = console_line d"
proof -
  let ?w = "\<lparr>entropy = [Supplies [1, 0], Supplies [7]], disk = [Fails 5],
            files = Map.empty, handles = {}, trace = [], total = 0\<rparr>"
  let ?s = "(snd (open_xb ''test.btdb'' ?w))\<lparr>total := 0\<rparr>"
  have none: "files ?w ''test.btdb'' = None"
    by simp
  have one: "fst (loop ''test.btdb'' (Suc n) ?s) = Inl OSError_write" for n
    by (simp add: open_xb_def random_entry_def random_data_def random_size_def getrandom_def
        encode_entry_Inr fp_write_def append_file_def log_def print_def)
  have "(100000::nat) = Suc 99999"
    by simp
  with one [of 99999] have "fst (loop ''test.btdb'' 100000 ?s) = Inl OSError_write"
    by (simp only:)
  from main_fst_snd [OF none this] obtain w' where
    main: "main ?w = (Inl OSError_write, w')"
    by blast
  from console_line_precedes_write [OF main none]
  obtain draws :: "(bytes \<times> bytes) list" and tail a d k where
    "trace w' = trace ?w @ Opened ''test.btdb''
         # concat (map (\<lambda>ad. [Getrandom 2 (fst ad),
                              Getrandom (from_bytes_little (fst ad)) (snd ad),
                              Printed (console_line (snd ad)),
                              Written (record_bytes (snd ad))]) draws)
         @ tail"
    "tail = [Getrandom 2 a, Getrandom (from_bytes_little a) d,
                           Printed (console_line d), Write_failed (record_bytes d) k]"
    "last (console (trace w')) = console_line d"
    by (elim exE conjE) blast
  with main none show ?thesis
    by (intro exI [of _ w'] exI [of _ draws] exI [of _ a] exI [of _ d] exI [of _ k] conjI) simp_all
qed

text \<open>
  C9 does not hold of the script: \<open>fp = open(...)\<close> is a plain assignment, there is no
  \<open>with\<close> block and no call of \<open>fp.close()\<close>. A run that fails on its first read of
  the entropy source ends with the handle still open.
\<close>

theorem handle_left_open_counterexample:
  "fst (main \<lparr>entropy = [], disk = [], files = Map.empty, handles = {}, trace = [], total = 0\<rparr>)
     = Inl OSError_getrandom
   \<and> ''test.btdb'' \<in> handles (snd (main \<lparr>entropy = [], disk = [], files = Map.empty,
                                          handles = {}, trace = [], total = 0\<rparr>))"
proof -
  let ?w = "\<lparr>entropy = [], disk = [], files = Map.empty, handles = {}, trace = [], total = 0\<rparr>"
  let ?s = "(snd (open_xb ''test.btdb'' ?w))\<lparr>total := 0\<rparr>"
  have none: "files ?w ''test.btdb'' = None"
    by simp
  have one: "fst (loop ''test.btdb'' (Suc n) ?s) = Inl OSError_getrandom
      \<and> ''test.btdb'' \<in> handles (snd (loop ''test.btdb'' (Suc n) ?s))" for n
    by (simp add: open_xb_def random_entry_def random_data_def random_size_def getrandom_def log_def)
  have "(100000::nat) = Suc 99999"
    by simp
  with one [of 99999] have run: "fst (loop ''test.btdb'' 100000 ?s) = Inl OSError_getrandom"
    "''test.btdb'' \<in> handles (snd (loop ''test.btdb'' 100000 ?s))"
    by (simp_all only:)
  from main_fst_snd [OF none run(1)] run(2) show ?thesis
    by simp
qed

text \<open>
  C9, amended. The script acquires the handle by a plain call of \<open>open\<close> and never closes
  it: once the open has succeeded, the handle is still open when the run ends, whether it
  completed or failed.
\<close>

theorem handle_never_closed:
  assumes "files w ''test.btdb'' = None"
  shows "handles (snd (main w)) = insert ''test.btdb'' (handles w)"
proof -
  let ?s = "(snd (open_xb ''test.btdb'' w))\<lparr>total := 0\<rparr>"
  have start: "files ?s ''test.btdb'' = Some []"
    by (simp add: start_state(2) [OF assms])
  obtain r w' where main: "main w = (r, w')"
    by (cases "main w")
  have "handles w' = handles ?s"
  proof (cases r)
    case (Inr u)
    with main have "main w = (Inr u, w')"
      by simp
    from main_Inr_D [OF this] obtain w2 where
      run: "loop ''test.btdb'' 100000 ?s = (Inr (), w2)" and
      w': "w' = print (str_nat (total w2)) w2"
      by blast
    from loop_completed [OF run start] obtain wj where
      "loop ''test.btdb'' 100000 ?s = (Inr (), wj)" "handles wj = handles ?s"
      by (elim exE conjE) (meson order_refl)
    with run show ?thesis
      by (simp add: w' print_def log_def)
  next
    case (Inl e)
    with main have "main w = (Inl e, w')"
      by simp
    from main_Inl_D [OF this] assms have "loop ''test.btdb'' 100000 ?s = (Inl e, w')"
      by simp
    from loop_aborted [OF this start] show ?thesis
      by (elim exE conjE)
  qed
  with main show ?thesis
    by (simp add: start_state(3) [OF assms])
qed

theorem handle_never_closed_witness:
  "files \<lparr>entropy = concat (replicate 100000 [Supplies [0, 0], Supplies []]), disk = [],
          files = Map.empty, handles = {}, trace = [], total = 0\<rparr> ''test.btdb'' = None
   \<and> handles (snd (main \<lparr>entropy = concat (replicate 100000 [Supplies [0, 0], Supplies []]), disk = [],
                          files = Map.empty, handles = {}, trace = [], total = 0\<rparr>))
     = {''test.btdb''}"
proof -
  have none: "files \<lparr>entropy = concat (replicate 100000 [Supplies [0, 0], Supplies []]), disk = [],
          files = Map.empty, handles = {}, trace = [], total = 0\<rparr> ''test.btdb'' = None"
    by simp
  from handle_never_closed [OF none] none show ?thesis
    by (simp only: state.simps)
qed

end
